theory Spec2Isabelle
  imports Complex_Main
begin

section \<open>Permission gate of \<open>on_message\<close> (src/bot.py, lines 450-478)\<close>

text \<open>
  Identifiers (users, roles, channels, messages) are Python integers. The configuration is
  the YAML file re-read on every event; \<open>allow_dms\<close> is optional there and defaults to
  \<open>True\<close> (\<open>config_data.get("allow_dms", True)\<close>). The gate is entered by the messages
  that pass line 452: direct messages and messages that mention the bot, from authors that
  are not bots.
\<close>

record perm =
  allowed_ids :: "int list"
  blocked_ids :: "int list"

record permissions =
  perm_users :: perm
  admin_ids :: "int list"
  perm_roles :: perm
  perm_channels :: perm

record config_data =
  allow_dms_opt :: "bool option"
  permissions :: permissions

text \<open>
  What the gate reads from the incoming message: the author, the author's roles
  (\<open>getattr(new_msg.author, "roles", ())\<close>), whether the channel is a private one, and the
  channel's own, parent and category identifiers (the latter two absent on some channel kinds).
\<close>

record gate_event =
  author_id :: int
  author_role_ids :: "int list"
  is_dm :: bool
  channel_id :: int
  channel_parent_id :: "int option"
  channel_category_id :: "int option"

text \<open>\<open>filter(None, xs)\<close> keeps the truthy entries: neither \<open>None\<close> nor \<open>0\<close>.\<close>

fun filter_None :: "int option list \<Rightarrow> int list" where
  "filter_None [] = []"
| "filter_None (None # xs) = filter_None xs"
| "filter_None (Some i # xs) = (if i = 0 then filter_None xs else i # filter_None xs)"

definition role_ids :: "gate_event \<Rightarrow> int set" where
  "role_ids ev = set (author_role_ids ev)"

definition channel_ids :: "gate_event \<Rightarrow> int set" where
  "channel_ids ev =
     set (filter_None [Some (channel_id ev), channel_parent_id ev, channel_category_id ev])"

definition allow_dms :: "config_data \<Rightarrow> bool" where
  "allow_dms cfg = (case allow_dms_opt cfg of None \<Rightarrow> True | Some b \<Rightarrow> b)"

definition user_is_admin :: "config_data \<Rightarrow> gate_event \<Rightarrow> bool" where
  "user_is_admin cfg ev \<longleftrightarrow> author_id ev \<in> set (admin_ids (permissions cfg))"

definition allowed_user_ids :: "config_data \<Rightarrow> int list" where
  "allowed_user_ids cfg = allowed_ids (perm_users (permissions cfg))"

definition blocked_user_ids :: "config_data \<Rightarrow> int list" where
  "blocked_user_ids cfg = blocked_ids (perm_users (permissions cfg))"

definition allowed_role_ids :: "config_data \<Rightarrow> int list" where
  "allowed_role_ids cfg = allowed_ids (perm_roles (permissions cfg))"

definition blocked_role_ids :: "config_data \<Rightarrow> int list" where
  "blocked_role_ids cfg = blocked_ids (perm_roles (permissions cfg))"

definition allowed_channel_ids :: "config_data \<Rightarrow> int list" where
  "allowed_channel_ids cfg = allowed_ids (perm_channels (permissions cfg))"

definition blocked_channel_ids :: "config_data \<Rightarrow> int list" where
  "blocked_channel_ids cfg = blocked_ids (perm_channels (permissions cfg))"

text \<open>
  Line 469. A Python conditional expression binds weaker than \<open>and\<close>/\<open>or\<close>/\<open>not\<close>:
  \<open>A if c else B and C\<close> is \<open>A if c else (B and C)\<close>.
\<close>

definition allow_all_users :: "config_data \<Rightarrow> gate_event \<Rightarrow> bool" where
  "allow_all_users cfg ev =
     (if is_dm ev then allowed_user_ids cfg = []
      else allowed_user_ids cfg = [] \<and> allowed_role_ids cfg = [])"

definition is_good_user :: "config_data \<Rightarrow> gate_event \<Rightarrow> bool" where
  "is_good_user cfg ev \<longleftrightarrow>
     user_is_admin cfg ev \<or> allow_all_users cfg ev
     \<or> author_id ev \<in> set (allowed_user_ids cfg)
     \<or> (\<exists>i \<in> role_ids ev. i \<in> set (allowed_role_ids cfg))"

definition is_bad_user :: "config_data \<Rightarrow> gate_event \<Rightarrow> bool" where
  "is_bad_user cfg ev \<longleftrightarrow>
     \<not> is_good_user cfg ev
     \<or> author_id ev \<in> set (blocked_user_ids cfg)
     \<or> (\<exists>i \<in> role_ids ev. i \<in> set (blocked_role_ids cfg))"

definition allow_all_channels :: "config_data \<Rightarrow> bool" where
  "allow_all_channels cfg \<longleftrightarrow> allowed_channel_ids cfg = []"

text \<open>
  Line 474, \<open>user_is_admin or allow_dms if is_dm else allow_all_channels or any(...)\<close>: the
  condition \<open>is_dm\<close> selects between the two disjunctions, so \<open>user_is_admin\<close> is read in
  the direct-message branch only.
\<close>

definition is_good_channel :: "config_data \<Rightarrow> gate_event \<Rightarrow> bool" where
  "is_good_channel cfg ev =
     (if is_dm ev then user_is_admin cfg ev \<or> allow_dms cfg
      else allow_all_channels cfg \<or> (\<exists>i \<in> channel_ids ev. i \<in> set (allowed_channel_ids cfg)))"

definition is_bad_channel :: "config_data \<Rightarrow> gate_event \<Rightarrow> bool" where
  "is_bad_channel cfg ev \<longleftrightarrow>
     \<not> is_good_channel cfg ev \<or> (\<exists>i \<in> channel_ids ev. i \<in> set (blocked_channel_ids cfg))"

text \<open>Line 477: the handler returns without answering when either flag is set.\<close>

definition gate_passes :: "config_data \<Rightarrow> gate_event \<Rightarrow> bool" where
  "gate_passes cfg ev \<longleftrightarrow> \<not> (is_bad_user cfg ev \<or> is_bad_channel cfg ev)"

text \<open>The vocabulary of the specification, written out over the configuration's lists.\<close>

definition user_blocked :: "config_data \<Rightarrow> gate_event \<Rightarrow> bool" where
  "user_blocked cfg ev \<longleftrightarrow>
     author_id ev \<in> set (blocked_user_ids cfg) \<or> role_ids ev \<inter> set (blocked_role_ids cfg) \<noteq> {}"

definition channel_blocked :: "config_data \<Rightarrow> gate_event \<Rightarrow> bool" where
  "channel_blocked cfg ev \<longleftrightarrow> channel_ids ev \<inter> set (blocked_channel_ids cfg) \<noteq> {}"

section \<open>Python strings and errors\<close>

text \<open>
  A Python \<open>str\<close> is modelled as a \<^typ>\<open>string\<close>, one \<^typ>\<open>char\<close> per Python character, so
  that \<^const>\<open>length\<close> is Python's \<open>len\<close>. Exceptions are values of \<open>py_error\<close>; a function
  that may raise returns \<open>py_error + 'a\<close> with \<open>Inl\<close> for the exception.
\<close>

datatype py_error =
    UnboundLocalError
  | KeyError
  | IndexError
  | AttributeError
  | NotFound
  | HTTPException
  | TypeError
  | RuntimeError
  | GenerationError

definition NL :: string where
  "NL = [CHR 0x0A]"

text \<open>\<open>sep.join(xs)\<close>.\<close>

fun join :: "string \<Rightarrow> string list \<Rightarrow> string" where
  "join sep [] = []"
| "join sep [x] = x"
| "join sep (x # y # ys) = x @ sep @ join sep (y # ys)"

text \<open>\<open>s.startswith(p)\<close>.\<close>

fun startswith :: "string \<Rightarrow> string \<Rightarrow> bool" where
  "startswith s [] = True"
| "startswith [] (p # ps) = False"
| "startswith (c # cs) (p # ps) = (c = p \<and> startswith cs ps)"

text \<open>
  \<open>s.replace(old, new)\<close> for a non-empty \<open>old\<close>: the occurrences are replaced from the
  left, without overlap.
\<close>

function replace :: "string \<Rightarrow> string \<Rightarrow> string \<Rightarrow> string" where
  "replace old new [] = []"
| "replace old new (c # cs) =
     (if old \<noteq> [] \<and> startswith (c # cs) old
      then new @ replace old new (drop (length old) (c # cs))
      else c # replace old new cs)"
  by pat_completeness auto
termination
  by (relation "measure (\<lambda>(old, new, s). length s)") auto

text \<open>
  \<open>str.isspace\<close> on the characters below 256: tab, line feed, vertical tab, form feed,
  carriage return, the separators 0x1C-0x1F, space, NEL and the no-break space.
\<close>

definition isspace :: "char \<Rightarrow> bool" where
  "isspace c \<longleftrightarrow>
     c \<in> set [CHR 0x09, CHR 0x0A, CHR 0x0B, CHR 0x0C, CHR 0x0D, CHR 0x1C, CHR 0x1D, CHR 0x1E,
              CHR 0x1F, CHR 0x20, CHR 0x85, CHR 0xA0]"

definition lstrip :: "string \<Rightarrow> string" where
  "lstrip s = dropWhile isspace s"

definition strip :: "string \<Rightarrow> string" where
  "strip s = rev (dropWhile isspace (rev (dropWhile isspace s)))"

text \<open>\<open>str(n)\<close> for an integer: decimal digits, with a sign when negative.\<close>

definition digit_char :: "nat \<Rightarrow> char" where
  "digit_char d = char_of (48 + d)"

function digits :: "nat \<Rightarrow> string" where
  "digits n = (if n < 10 then [digit_char n] else digits (n div 10) @ [digit_char (n mod 10)])"
  by pat_completeness auto
termination
  by (relation "measure id") auto

definition str_int :: "int \<Rightarrow> string" where
  "str_int i = (if i < 0 then CHR ''-'' # digits (nat (- i)) else digits (nat i))"

section \<open>System prompt composer: \<open>build_system_prompt\<close> (src/bot.py, lines 238-261)\<close>

text \<open>
  The preference record is the JSON object of the server's data file. A stored user is a JSON
  object with string values (\<open>display_name\<close>, \<open>description\<close>, \<open>first_seen\<close>,
  \<open>last_updated\<close>), kept as an association list. \<open>sd_users\<close> is \<open>server_data.get("users")\<close>
  and \<open>sd_user\<close> is \<open>server_data.get("user")\<close>: \<open>None\<close> when the key is absent or null.
\<close>

type_synonym user_dict = "(string \<times> string) list"

record server_data =
  sd_model :: "string option"
  sd_system_prompt :: "string option"
  sd_users :: "(string \<times> user_dict) list option"
  sd_user :: "user_dict option"

text \<open>Truthiness of an optional dictionary and of an optional string.\<close>

definition truthy_dict :: "('k \<times> 'v) list option \<Rightarrow> bool" where
  "truthy_dict d = (case d of None \<Rightarrow> False | Some kvs \<Rightarrow> kvs \<noteq> [])"

definition truthy_str :: "string option \<Rightarrow> bool" where
  "truthy_str s = (case s of None \<Rightarrow> False | Some t \<Rightarrow> t \<noteq> [])"

text \<open>\<open>d[k]\<close> raises \<open>KeyError\<close> on a missing key; \<open>d.get(k)\<close> is \<^const>\<open>map_of\<close>.\<close>

definition getitem :: "(string \<times> 'v) list \<Rightarrow> string \<Rightarrow> py_error + 'v" where
  "getitem d k = (case map_of d k of None \<Rightarrow> Inl KeyError | Some v \<Rightarrow> Inr v)"

text \<open>
  The two renderings of \<open>datetime.now().astimezone()\<close> that the function substitutes:
  \<open>strftime("%B %d %Y")\<close> and \<open>strftime("%H:%M:%S %Z%z")\<close>. The clock is read once, at entry.
\<close>

record clock =
  now_date :: string
  now_time :: string

text \<open>
  The loop of lines 248-255 over the participant ids, in the order in which the set is
  iterated. The local variable \<open>user\<close> is assigned in the first branch only (line 251) and
  keeps its value across iterations; \<open>user_var\<close> is its binding, \<open>None\<close> while it is
  unbound. Line 254 reads it in the second branch.
\<close>

fun users_info_loop ::
  "server_data \<Rightarrow> int list \<Rightarrow> user_dict option \<Rightarrow> string list \<Rightarrow> py_error + string list" where
  "users_info_loop sd [] user_var users_info = Inr users_info"
| "users_info_loop sd (user_id # rest) user_var users_info =
     (let user_id_str = str_int user_id in
      if truthy_dict (sd_users sd) \<and> user_id_str \<in> fst ` set (the (sd_users sd)) then
        (case map_of (the (sd_users sd)) user_id_str of
          None \<Rightarrow> Inl KeyError
        | Some user \<Rightarrow>
            if truthy_str (map_of user ''description'') then
              (case getitem user ''display_name'' of
                Inl e \<Rightarrow> Inl e
              | Inr display_name \<Rightarrow>
                  (case getitem user ''description'' of
                    Inl e \<Rightarrow> Inl e
                  | Inr description \<Rightarrow>
                      users_info_loop sd rest (Some user)
                        (users_info @
                          [''- <@'' @ str_int user_id @ ''> (Display: '' @ display_name @ ''): ''
                            @ description])))
            else users_info_loop sd rest (Some user) users_info)
      else if truthy_dict (sd_user sd) then
        (case user_var of
          None \<Rightarrow> Inl UnboundLocalError
        | Some user \<Rightarrow>
            if truthy_str (map_of user ''description'') then
              (case getitem user ''display_name'' of
                Inl e \<Rightarrow> Inl e
              | Inr display_name \<Rightarrow>
                  (case getitem user ''description'' of
                    Inl e \<Rightarrow> Inl e
                  | Inr description \<Rightarrow>
                      users_info_loop sd rest user_var
                        (users_info @ [''- '' @ display_name @ '': '' @ description])))
            else users_info_loop sd rest user_var users_info)
      else users_info_loop sd rest user_var users_info)"

definition build_system_prompt ::
  "clock \<Rightarrow> string \<Rightarrow> server_data \<Rightarrow> string option \<Rightarrow> int list \<Rightarrow> py_error + string" where
  "build_system_prompt now base_prompt sd server_name conversation_user_ids =
     (let prompt = strip (replace ''{time}'' (now_time now)
                            (replace ''{date}'' (now_date now) base_prompt));
          prompt = (if truthy_str server_name
                    then prompt @ NL @ NL @ ''Current server: '' @ the server_name
                    else prompt)
      in case users_info_loop sd conversation_user_ids None [] of
           Inl e \<Rightarrow> Inl e
         | Inr users_info \<Rightarrow>
             Inr (if users_info \<noteq> []
                  then prompt @ NL @ NL @ ''Known users in this conversation:'' @ NL
                       @ join NL users_info @ NL @ NL
                       @ ''When addressing users, use their display names naturally in conversation.''
                  else prompt))"

section \<open>Messages, the platform and the message node cache\<close>

text \<open>
  What the handler reads of a \<open>discord.Message\<close>. An attachment has an optional MIME type and
  a URL; an embed (the same class for received and for sent embeds) has an optional title and
  description, a colour and fields. Two users are equal when their ids are.
\<close>

record attachment =
  content_type :: "string option"
  url :: string

datatype color = orange | dark_green | red

record embed =
  title :: "string option"
  description :: "string option"
  color :: "color option"
  embed_fields :: "(string \<times> string) list"

record user =
  uid :: int
  user_display_name :: string

datatype channel_type = private_channel | text_channel | public_thread | other_channel_type

datatype message_type = default_message | reply_message | other_message_type

record parent_channel =
  pc_id :: int
  pc_type :: channel_type

datatype message =
  Message (msg_id: int) (content: string) (attachments: "attachment list")
    (embeds: "embed list") (author: user) (msg_type: message_type)
    (reference: "message_reference option") (channel: channel)
and message_reference =
  MessageReference (message_id: "int option") (cached_message: "message option")
and channel =
  Channel (chan_id: int) (chan_type: channel_type) (chan_parent: "parent_channel option")
    (starter_message: "message option")

text \<open>An encoded image part, as \<open>download_and_encode_image\<close> returns it.\<close>

record image =
  mime_type :: string
  data :: string

text \<open>
  The platform and the network, as far as the conversation walk calls them:
  \<^item> \<open>bot_user\<close> is \<open>discord_bot.user\<close>;
  \<^item> \<open>download_and_encode_image\<close> (lines 165-224) catches every exception and returns
    \<open>None\<close> on any failure;
  \<^item> \<open>history_before m\<close> is \<open>[x async for x in m.channel.history(before=m, limit=1)]\<close>:
    the message just before \<open>m\<close> in its channel, if any, or an exception;
  \<^item> \<open>fetch_message c i\<close> is \<open>fetch_message(i)\<close> on the channel with id \<open>c\<close>.
  Nothing is assumed of these functions: the lineage they induce may contain cycles.
\<close>

record env =
  bot_user :: user
  download_and_encode_image :: "string \<Rightarrow> image option"
  history_before :: "message \<Rightarrow> py_error + message option"
  fetch_message :: "int \<Rightarrow> int \<Rightarrow> py_error + message"

text \<open>
  The limits are read from the configuration loaded at start-up (lines 490-493); they are
  counts, modelled as natural numbers, so that \<open>xs[:n]\<close> is \<^term>\<open>take n xs\<close>.
\<close>

record limits =
  max_text :: nat
  max_images :: nat
  max_messages :: nat
  max_urls :: nat

datatype role = role_user | role_model

text \<open>
  \<open>MsgNode\<close> (lines 57-67). \<open>lock_held\<close> is the state of the node's \<open>asyncio.Lock\<close>.
\<close>

record msg_node =
  node_text :: "string option"
  node_images :: "image list"
  node_role :: role
  node_user_id :: "int option"
  node_display_name :: "string option"
  has_bad_attachments :: bool
  fetch_parent_failed :: bool
  parent_msg :: "message option"
  lock_held :: bool

definition MsgNode :: msg_node where
  "MsgNode = \<lparr>node_text = None, node_images = [], node_role = role_model, node_user_id = None,
              node_display_name = None, has_bad_attachments = False,
              fetch_parent_failed = False, parent_msg = None, lock_held = False\<rparr>"

section \<open>\<open>extract_image_urls\<close> (src/bot.py, lines 227-235)\<close>

text \<open>
  The pattern is \<open>https?://[^\s<>"{}|\\^`\[\]]+\<close>. \<open>match_url s\<close> is the match anchored at
  the start of \<open>s\<close>; \<open>findall_urls\<close> is \<open>re.findall\<close>: leftmost matches, without overlap. A
  match is never empty, so skipping it drops its first character and \<open>length u - 1\<close> more.
\<close>

definition url_char :: "char \<Rightarrow> bool" where
  "url_char c \<longleftrightarrow>
     \<not> isspace c \<and>
     c \<notin> set [CHR ''<'', CHR ''>'', CHR 0x22, CHR ''{'', CHR ''}'', CHR ''|'', CHR 0x5C,
               CHR ''^'', CHR 0x60, CHR ''['', CHR '']'']"

definition match_url :: "string \<Rightarrow> string option" where
  "match_url s =
     (if startswith s ''https://'' \<and> takeWhile url_char (drop 8 s) \<noteq> []
      then Some (''https://'' @ takeWhile url_char (drop 8 s))
      else if startswith s ''http://'' \<and> takeWhile url_char (drop 7 s) \<noteq> []
      then Some (''http://'' @ takeWhile url_char (drop 7 s))
      else None)"

function findall_urls :: "string \<Rightarrow> string list" where
  "findall_urls [] = []"
| "findall_urls (c # cs) =
     (case match_url (c # cs) of
        Some u \<Rightarrow> u # findall_urls (drop (length u - 1) cs)
      | None \<Rightarrow> findall_urls cs)"
  by pat_completeness auto
termination
  by (relation "measure length") auto

text \<open>\<open>str.lower\<close> on the characters below 256, and \<open>str.endswith\<close>.\<close>

definition lower_char :: "char \<Rightarrow> char" where
  "lower_char c =
     (let n = (of_char c :: nat)
      in if (65 \<le> n \<and> n \<le> 90) \<or> (192 \<le> n \<and> n \<le> 222 \<and> n \<noteq> 215) then char_of (n + 32) else c)"

definition lower :: "string \<Rightarrow> string" where
  "lower s = map lower_char s"

definition endswith :: "string \<Rightarrow> string \<Rightarrow> bool" where
  "endswith s suffix = startswith (rev s) (rev suffix)"

definition image_extensions :: "string list" where
  "image_extensions = [''.png'', ''.jpg'', ''.jpeg'', ''.gif'', ''.webp'', ''.bmp'']"

definition extract_image_urls :: "string \<Rightarrow> nat \<Rightarrow> string list" where
  "extract_image_urls txt n =
     take n (filter (\<lambda>u. \<exists>ext \<in> set image_extensions. endswith (lower u) ext)
                    (findall_urls txt))"

section \<open>Conversation walk: the loop of \<open>on_message\<close> (src/bot.py, lines 495-589)\<close>

text \<open>\<open>user.mention\<close>, \<open>sub in s\<close> and \<open>s.removeprefix(p)\<close>.\<close>

definition mention :: "user \<Rightarrow> string" where
  "mention u = ''<@'' @ str_int (uid u) @ ''>''"

fun contains :: "string \<Rightarrow> string \<Rightarrow> bool" where
  "contains [] sub = (sub = [])"
| "contains (c # cs) sub = (startswith (c # cs) sub \<or> contains cs sub)"

definition removeprefix :: "string \<Rightarrow> string \<Rightarrow> string" where
  "removeprefix s p = (if startswith s p then drop (length p) s else s)"

text \<open>Line 509: the attachments whose content type is present and starts with \<open>image\<close>.\<close>

definition is_image_attachment :: "attachment \<Rightarrow> bool" where
  "is_image_attachment att =
     (case content_type att of None \<Rightarrow> False | Some ct \<Rightarrow> ct \<noteq> [] \<and> startswith ct ''image'')"

definition good_attachments :: "message \<Rightarrow> attachment list" where
  "good_attachments m = filter is_image_attachment (attachments m)"

text \<open>Lines 511-514: the node's text.\<close>

fun filter_truthy :: "string option list \<Rightarrow> string list" where
  "filter_truthy [] = []"
| "filter_truthy (None # xs) = filter_truthy xs"
| "filter_truthy (Some s # xs) = (if s = [] then filter_truthy xs else s # filter_truthy xs)"

definition embed_text :: "embed \<Rightarrow> string" where
  "embed_text e = join NL (filter_truthy [title e, description e])"

definition message_text :: "env \<Rightarrow> message \<Rightarrow> string" where
  "message_text env curr_msg =
     (let cleaned_content = lstrip (removeprefix (content curr_msg) (mention (bot_user env)))
      in join NL ((if cleaned_content \<noteq> [] then [cleaned_content] else [])
                  @ map embed_text (embeds curr_msg)))"

text \<open>
  Lines 517-529: at most \<open>max_images\<close> image attachments are downloaded; when fewer than
  \<open>max_images\<close> images resulted, image URLs found in the text fill the remaining places.
\<close>

definition download_all :: "env \<Rightarrow> string list \<Rightarrow> image list" where
  "download_all env urls = List.map_filter (download_and_encode_image env) urls"

definition message_images :: "env \<Rightarrow> limits \<Rightarrow> message \<Rightarrow> string \<Rightarrow> image list" where
  "message_images env lims curr_msg txt =
     (let images = download_all env (map url (take (max_images lims) (good_attachments curr_msg)))
      in if length images < max_images lims
         then images @ download_all env
                (take (max_images lims - length images) (extract_image_urls txt (max_urls lims)))
         else images)"

text \<open>
  Lines 538-554, the parent of \<open>curr_msg\<close>; \<open>dm\<close> is the handler's \<open>is_dm\<close> (line 450),
  computed once from the trigger message. \<open>find_parent_else\<close> is the \<open>else\<close> branch: in a
  public thread without a reply reference the type of the thread's parent channel is read
  (\<open>AttributeError\<close> when the parent is not known); the parent is then the thread's starter
  message, or the target of the reply reference, from the cache or fetched.
\<close>

definition find_parent_else :: "env \<Rightarrow> message \<Rightarrow> py_error + message option" where
  "find_parent_else env curr_msg =
     (let is_public_thread = (chan_type (channel curr_msg) = public_thread)
      in if is_public_thread \<and> reference curr_msg = None then
           (case chan_parent (channel curr_msg) of
              None \<Rightarrow> Inl AttributeError
            | Some parent \<Rightarrow>
                if pc_type parent = text_channel then
                  (if chan_id (channel curr_msg) \<noteq> 0 then
                     (case starter_message (channel curr_msg) of
                        Some m \<Rightarrow> Inr (Some m)
                      | None \<Rightarrow>
                          (case fetch_message env (pc_id parent) (chan_id (channel curr_msg)) of
                             Inl e \<Rightarrow> Inl e
                           | Inr m \<Rightarrow> Inr (Some m)))
                   else Inr None)
                else Inr None)
         else
           (case reference curr_msg of
              None \<Rightarrow> Inr None
            | Some r \<Rightarrow>
                (case message_id r of
                   None \<Rightarrow> Inr None
                 | Some parent_msg_id \<Rightarrow>
                     if parent_msg_id \<noteq> 0 then
                       (case cached_message r of
                          Some m \<Rightarrow> Inr (Some m)
                        | None \<Rightarrow>
                            (case fetch_message env (chan_id (channel curr_msg)) parent_msg_id of
                               Inl e \<Rightarrow> Inl e
                             | Inr m \<Rightarrow> Inr (Some m)))
                     else Inr None)))"

definition find_parent :: "env \<Rightarrow> bool \<Rightarrow> message \<Rightarrow> py_error + message option" where
  "find_parent env dm curr_msg =
     (if reference curr_msg = None \<and> \<not> contains (content curr_msg) (mention (bot_user env)) then
        (case history_before env curr_msg of
           Inl e \<Rightarrow> Inl e
         | Inr None \<Rightarrow> find_parent_else env curr_msg
         | Inr (Some prev_msg_in_channel) \<Rightarrow>
             if msg_type prev_msg_in_channel \<in> {default_message, reply_message}
                \<and> uid (author prev_msg_in_channel)
                    = uid (if dm then bot_user env else author curr_msg)
             then Inr (Some prev_msg_in_channel)
             else find_parent_else env curr_msg)
      else find_parent_else env curr_msg)"

text \<open>
  Lines 505-558: the first visit fills the node in place. \<open>discord.NotFound\<close> and
  \<open>discord.HTTPException\<close> are caught and recorded in \<open>fetch_parent_failed\<close>; any other
  exception leaves the handler, after the fields of lines 511-534 have been written. The
  result is the node and the exception that propagates, if any.
\<close>

definition populate ::
  "env \<Rightarrow> limits \<Rightarrow> bool \<Rightarrow> message \<Rightarrow> msg_node \<Rightarrow> msg_node \<times> py_error option" where
  "populate env lims dm curr_msg curr_node =
     (let txt = message_text env curr_msg;
          r = (if uid (author curr_msg) = uid (bot_user env) then role_model else role_user);
          node = curr_node
            \<lparr>node_text := Some txt,
             node_images := message_images env lims curr_msg txt,
             node_role := r,
             node_user_id := (if r = role_user then Some (uid (author curr_msg)) else None),
             node_display_name :=
               (if r = role_user then Some (user_display_name (author curr_msg)) else None),
             has_bad_attachments :=
               (length (attachments curr_msg) > length (good_attachments curr_msg))\<rparr>
      in case find_parent env dm curr_msg of
           Inr None \<Rightarrow> (node, None)
         | Inr (Some m) \<Rightarrow> (node\<lparr>parent_msg := Some m\<rparr>, None)
         | Inl e \<Rightarrow>
             if e = NotFound \<or> e = HTTPException
             then (node\<lparr>fetch_parent_failed := True\<rparr>, None)
             else (node, Some e))"

text \<open>
  A turn of the conversation (\<open>{"role": ..., "parts": [...]}\<close>) and the warnings. A
  warning constructor stands for the warning string of the source:
  \<^item> \<open>WarnMaxText n\<close> for \<open>"Max {n:,} characters per message"\<close>,
  \<^item> \<open>WarnMaxImages n\<close> for \<open>"Max {n} images per message"\<close>,
  \<^item> \<open>WarnUnsupported\<close> for \<open>"Unsupported attachments"\<close>,
  \<^item> \<open>WarnOnlyLast n\<close> for \<open>"Only using last {n} message(s)"\<close>,
  each behind the warning sign.
\<close>

datatype part = TextPart string | ImagePart image

record turn =
  turn_role :: role
  parts :: "part list"

datatype warning = WarnMaxText nat | WarnMaxImages nat | WarnUnsupported | WarnOnlyLast nat

text \<open>
  The variables of the loop. \<open>msg_nodes\<close> is the global cache, \<open>messages\<close> the turns collected
  so far (newest first). \<open>iterations\<close> is not a variable of the source: it counts the
  executions of the loop body.
\<close>

record walk_state =
  msg_nodes :: "int \<rightharpoonup> msg_node"
  messages :: "turn list"
  user_warnings :: "warning set"
  curr_msg :: "message option"
  conversation_user_ids :: "int set"
  iterations :: nat

text \<open>
  How a run of the loop ends: \<open>Finished\<close> when the loop condition fails, \<open>Raised e\<close> when an
  exception leaves the handler, \<open>Blocked\<close> when the node's lock is held (the walk is
  modelled for one handler, where nobody else releases it), \<open>OutOfFuel\<close> when the given
  number of iterations did not suffice.
\<close>

datatype walk_status = Finished | Raised py_error | Blocked | OutOfFuel

definition build_parts :: "limits \<Rightarrow> msg_node \<Rightarrow> string \<Rightarrow> part list" where
  "build_parts lims curr_node txt =
     (if take (max_text lims) txt \<noteq> [] then
        [TextPart (if node_role curr_node = role_user \<and> truthy_str (node_display_name curr_node)
                   then the (node_display_name curr_node) @ '': '' @ take (max_text lims) txt
                   else take (max_text lims) txt)]
      else [])
     @ map ImagePart (take (max_images lims) (node_images curr_node))"

definition add_warnings :: "limits \<Rightarrow> msg_node \<Rightarrow> string \<Rightarrow> turn list \<Rightarrow> warning set \<Rightarrow> warning set" where
  "add_warnings lims curr_node txt msgs ws =
     (let ws = (if length txt > max_text lims then insert (WarnMaxText (max_text lims)) ws else ws);
          ws = (if length (node_images curr_node) > max_images lims
                then insert (WarnMaxImages (max_images lims)) ws else ws);
          ws = (if has_bad_attachments curr_node then insert WarnUnsupported ws else ws)
      in if fetch_parent_failed curr_node
            \<or> (parent_msg curr_node \<noteq> None \<and> length msgs = max_messages lims)
         then insert (WarnOnlyLast (length msgs)) ws else ws)"

text \<open>
  Lines 505-558: the node is filled on its first visit only (\<open>if curr_node.text is None\<close>).
\<close>

definition visit ::
  "env \<Rightarrow> limits \<Rightarrow> bool \<Rightarrow> message \<Rightarrow> msg_node \<Rightarrow> msg_node \<times> py_error option" where
  "visit env lims dm m node =
     (if node_text node = None then populate env lims dm m node else (node, None))"

text \<open>
  Lines 561-589: the turn of the visited node, the warnings, the next message. The node's
  text is sliced, which raises \<open>TypeError\<close> on \<open>None\<close>.
\<close>

definition emit :: "limits \<Rightarrow> msg_node \<Rightarrow> walk_state \<Rightarrow> walk_status option \<times> walk_state" where
  "emit lims curr_node st =
     (case node_text curr_node of
        None \<Rightarrow> (Some (Raised TypeError), st)
      | Some txt \<Rightarrow>
          (let ids = (case node_user_id curr_node of
                        None \<Rightarrow> conversation_user_ids st
                      | Some i \<Rightarrow> if i \<noteq> 0 then insert i (conversation_user_ids st)
                                  else conversation_user_ids st);
               ps = build_parts lims curr_node txt;
               msgs = (if ps \<noteq> []
                       then messages st @ [\<lparr>turn_role = node_role curr_node, parts = ps\<rparr>]
                       else messages st)
           in (None,
               st\<lparr>messages := msgs,
                  user_warnings := add_warnings lims curr_node txt msgs (user_warnings st),
                  curr_msg := parent_msg curr_node,
                  conversation_user_ids := ids\<rparr>)))"

text \<open>
  One execution of the loop body (lines 502-589) on the current message \<open>m\<close>:
  \<open>msg_nodes.setdefault\<close>, the node's lock, the visit, the turn. \<open>dm\<close> is the handler's
  \<open>is_dm\<close> (line 450).
\<close>

definition loop_body ::
  "env \<Rightarrow> limits \<Rightarrow> bool \<Rightarrow> message \<Rightarrow> walk_state \<Rightarrow> walk_status option \<times> walk_state" where
  "loop_body env lims dm m st =
     (let node0 = (case msg_nodes st (msg_id m) of None \<Rightarrow> MsgNode | Some n \<Rightarrow> n);
          st0 = st\<lparr>msg_nodes := (msg_nodes st)(msg_id m \<mapsto> node0),
                   iterations := Suc (iterations st)\<rparr>
      in if lock_held node0 then (Some Blocked, st0)
         else
           (case visit env lims dm m node0 of
              (curr_node, Some e) \<Rightarrow>
                (Some (Raised e), st0\<lparr>msg_nodes := (msg_nodes st0)(msg_id m \<mapsto> curr_node)\<rparr>)
            | (curr_node, None) \<Rightarrow>
                emit lims curr_node (st0\<lparr>msg_nodes := (msg_nodes st0)(msg_id m \<mapsto> curr_node)\<rparr>)))"

text \<open>
  The \<open>while\<close> loop of line 501, run for at most \<open>fuel\<close> iterations.
\<close>

fun walk :: "nat \<Rightarrow> env \<Rightarrow> limits \<Rightarrow> bool \<Rightarrow> walk_state \<Rightarrow> walk_status \<times> walk_state" where
  "walk 0 env lims dm st =
     (case curr_msg st of
        None \<Rightarrow> (Finished, st)
      | Some m \<Rightarrow> if length (messages st) < max_messages lims then (OutOfFuel, st) else (Finished, st))"
| "walk (Suc fuel) env lims dm st =
     (case curr_msg st of
        None \<Rightarrow> (Finished, st)
      | Some m \<Rightarrow>
          if length (messages st) < max_messages lims then
            (case loop_body env lims dm m st of
               (Some status, st') \<Rightarrow> (status, st')
             | (None, st') \<Rightarrow> walk fuel env lims dm st')
          else (Finished, st))"

text \<open>Lines 496-499: the state in which the loop is entered for the trigger message.\<close>

definition walk_init :: "(int \<rightharpoonup> msg_node) \<Rightarrow> message \<Rightarrow> walk_state" where
  "walk_init cache new_msg =
     \<lparr>msg_nodes = cache, messages = [], user_warnings = {}, curr_msg = Some new_msg,
      conversation_user_ids = {}, iterations = 0\<rparr>"

text \<open>
  A property of every cache the handler builds (nodes are created empty or filled by
  \<open>populate\<close>, under the one value of \<open>max_images\<close> read at start-up): no node holds more than
  \<open>max_images\<close> images.
\<close>

definition cache_ok :: "limits \<Rightarrow> (int \<rightharpoonup> msg_node) \<Rightarrow> bool" where
  "cache_ok lims cache \<longleftrightarrow> (\<forall>k n. cache k = Some n \<longrightarrow> length (node_images n) \<le> max_images lims)"

fun is_image_part :: "part \<Rightarrow> bool" where
  "is_image_part (ImagePart i) = True"
| "is_image_part (TextPart t) = False"

text \<open>
  A lineage as the platform delivers it. Whatever way the walk resolves a parent (the message
  before in the channel, the starter message of a thread, the target of a reply, or the parent
  kept in a cached node), the parent is an older message than its child, and ids grow with
  time and are not negative. \<open>older_lineage S env dm cache\<close> says so for a set \<open>S\<close> of messages
  that contains the parents of its members: those that \<open>find_parent\<close> resolves and those that
  the cached nodes hold.
\<close>

definition older_lineage :: "message set \<Rightarrow> env \<Rightarrow> bool \<Rightarrow> (int \<rightharpoonup> msg_node) \<Rightarrow> bool" where
  "older_lineage S env dm cache \<longleftrightarrow>
     (\<forall>m \<in> S. 0 \<le> msg_id m
        \<and> (\<forall>p. find_parent env dm m = Inr (Some p) \<longrightarrow> p \<in> S \<and> msg_id p < msg_id m)
        \<and> (\<forall>n p. cache (msg_id m) = Some n \<longrightarrow> parent_msg n = Some p
               \<longrightarrow> p \<in> S \<and> msg_id p < msg_id m))"

text \<open>No lock of a cached node is held: no other handler is at work on the cache.\<close>

definition locks_free :: "(int \<rightharpoonup> msg_node) \<Rightarrow> bool" where
  "locks_free cache \<longleftrightarrow> (\<forall>k n. cache k = Some n \<longrightarrow> \<not> lock_held n)"

section \<open>Example inputs for the conversation walk\<close>

text \<open>
  A guild text channel, a human author and the bot account, whose mention is \<open><@99>\<close>.
  \<open>ex_limits\<close> allows two turns and one image per message. \<open>ex_said_hi\<close> mentions the bot and
  says hi.
\<close>

definition ex_channel :: channel where
  "ex_channel = Channel 9 text_channel None None"

definition ex_author :: user where
  "ex_author = \<lparr>uid = 5, user_display_name = ''ann''\<rparr>"

definition ex_bot :: user where
  "ex_bot = \<lparr>uid = 99, user_display_name = ''bot''\<rparr>"

definition ex_limits :: limits where
  "ex_limits = \<lparr>max_text = 100, max_images = 1, max_messages = 2, max_urls = 3\<rparr>"

definition ex_said_hi :: message where
  "ex_said_hi = Message 2 ''<@99> hi'' [] [] ex_author default_message None ex_channel"

text \<open>
  An acyclic lineage of three messages whose content is the bot's mention and nothing else,
  so that none of them has text or an image: \<open>ex_reply_11\<close>, the reply \<open>ex_reply_12\<close> to it and
  the reply \<open>ex_reply_chain\<close> to that one, the targets being cached on the references.
  \<open>ex_text_chain\<close> is a reply with text to \<open>ex_said_hi\<close>.
\<close>

definition ex_reply_11 :: message where
  "ex_reply_11 = Message 11 ''<@99>'' [] [] ex_author default_message None ex_channel"

definition ex_reply_12 :: message where
  "ex_reply_12 =
     Message 12 ''<@99>'' [] [] ex_author reply_message
       (Some (MessageReference (Some 11) (Some ex_reply_11))) ex_channel"

definition ex_reply_chain :: message where
  "ex_reply_chain =
     Message 13 ''<@99>'' [] [] ex_author reply_message
       (Some (MessageReference (Some 12) (Some ex_reply_12))) ex_channel"

definition ex_text_chain :: message where
  "ex_text_chain =
     Message 22 ''<@99> and you?'' [] [] ex_author reply_message
       (Some (MessageReference (Some 2) (Some ex_said_hi))) ex_channel"

text \<open>
  \<open>ex_two_images\<close> carries two image attachments; in \<open>ex_env_downloads\<close> every download
  succeeds and the channel has no earlier message.
\<close>

definition ex_two_images :: message where
  "ex_two_images =
     Message 3 ''<@99> look'' 
       [\<lparr>content_type = Some ''image/png'', url = ''https://cdn.example/a.png''\<rparr>,
        \<lparr>content_type = Some ''image/jpeg'', url = ''https://cdn.example/b.jpg''\<rparr>]
       [] ex_author default_message None ex_channel"

definition ex_env_downloads :: env where
  "ex_env_downloads =
     \<lparr>bot_user = ex_bot,
      download_and_encode_image = (\<lambda>u. Some \<lparr>mime_type = ''image/png'', data = u\<rparr>),
      history_before = (\<lambda>m. Inr None), fetch_message = (\<lambda>c i. Inl NotFound)\<rparr>"

text \<open>The messages of the lineage of \<open>ex_reply_chain\<close>.\<close>

definition ex_lineage :: "message set" where
  "ex_lineage = {ex_reply_11, ex_reply_12, ex_reply_chain}"

section \<open>The chat platform as the response driver uses it\<close>

text \<open>
  What is sent with \<open>reply\<close> or \<open>edit\<close>: an embed (\<open>embed=...\<close>) or plain content
  (\<open>content=...\<close>). A call is a reply to a message (with its \<open>silent\<close> flag) or an edit of a
  message. The log of the platform records every call with the place in the handler that
  issued it (inside the stream loop, with the clock value read for the chunk at line 663; in
  the final update; in the error handler) and whether it succeeded.

  The value in \<open>Streaming t\<close> is that reading of the clock, not the time of the call: the clock
  is read once per chunk, every call for the chunk is issued after the reading, and the reply
  of line 682 is issued after the awaited edit of line 672 with the reading taken before
  that edit. The time at which a call is issued is not part of the model.
\<close>

datatype payload = EmbedPayload embed | ContentPayload string

datatype call = ReplyTo int payload bool | EditMsg int payload

datatype phase = Streaming real | FinalUpdate | ErrorHandler

record log_entry =
  le_call :: call
  le_phase :: phase
  le_ok :: bool

text \<open>
  The platform assigns the ids of new messages (\<open>next_id\<close>, each id used once), shows for every
  message created here its current payload (\<open>shown\<close>) and remembers which message it answers
  (\<open>reply_to\<close>). Whether a call fails is the platform's choice: \<open>outcomes k\<close> is the exception
  raised by the \<open>k\<close>-th call, if any. A failed call changes nothing but the log.
\<close>

record platform =
  next_id :: int
  shown :: "int \<rightharpoonup> payload"
  reply_to :: "int \<rightharpoonup> int"
  calls :: "log_entry list"
  outcomes :: "nat \<Rightarrow> py_error option"

text \<open>
  The \<open>discord.Message\<close> that \<open>reply\<close> returns: its id and its \<open>content\<close> as sent (empty for
  an embed). \<open>edit\<close> returns a new object and leaves this one as it is.
\<close>

record response_msg =
  rm_id :: int
  rm_content :: string

definition payload_content :: "payload \<Rightarrow> string" where
  "payload_content p = (case p of EmbedPayload e \<Rightarrow> [] | ContentPayload c \<Rightarrow> c)"

definition api_reply ::
  "phase \<Rightarrow> int \<Rightarrow> payload \<Rightarrow> bool \<Rightarrow> platform \<Rightarrow> (py_error + response_msg) \<times> platform" where
  "api_reply ph target p silent pf =
     (case outcomes pf (length (calls pf)) of
        Some e \<Rightarrow>
          (Inl e, pf\<lparr>calls := calls pf @ [\<lparr>le_call = ReplyTo target p silent, le_phase = ph,
                                           le_ok = False\<rparr>]\<rparr>)
      | None \<Rightarrow>
          (Inr \<lparr>rm_id = next_id pf, rm_content = payload_content p\<rparr>,
           pf\<lparr>next_id := next_id pf + 1,
              shown := (shown pf)(next_id pf \<mapsto> p),
              reply_to := (reply_to pf)(next_id pf \<mapsto> target),
              calls := calls pf @ [\<lparr>le_call = ReplyTo target p silent, le_phase = ph,
                                   le_ok = True\<rparr>]\<rparr>))"

definition api_edit :: "phase \<Rightarrow> int \<Rightarrow> payload \<Rightarrow> platform \<Rightarrow> py_error option \<times> platform" where
  "api_edit ph i p pf =
     (case outcomes pf (length (calls pf)) of
        Some e \<Rightarrow>
          (Some e, pf\<lparr>calls := calls pf @ [\<lparr>le_call = EditMsg i p, le_phase = ph, le_ok = False\<rparr>]\<rparr>)
      | None \<Rightarrow>
          (None, pf\<lparr>shown := (shown pf)(i \<mapsto> p),
                    calls := calls pf @ [\<lparr>le_call = EditMsg i p, le_phase = ph, le_ok = True\<rparr>]\<rparr>))"

section \<open>Streaming response driver: \<open>on_message\<close>, lines 623-754\<close>

text \<open>
  The generation stream (\<open>for chunk in response\<close>): a chunk carries text, or has no \<open>text\<close>
  attribute, or raises when its text is read; with every chunk comes the value of the clock
  when it is processed. \<open>StreamFails\<close> is the generation call or the iterator raising. Clock
  values are real numbers; the rounding of the float subtraction of line 664 is not modelled.
\<close>

datatype chunk = TextChunk string | NoTextChunk | BadChunk

datatype stream_item = Chunk chunk real | StreamFails

definition EDIT_DELAY_SECONDS :: real where
  "EDIT_DELAY_SECONDS = 2"

text \<open>
  The in-progress marker: a space and a white circle (U+26AA), two characters; the circle
  is represented by one \<^typ>\<open>char\<close>.
\<close>

definition STREAMING_INDICATOR :: string where
  "STREAMING_INDICATOR = [CHR '' '', CHR 0xAA]"

definition error_msg :: string where
  "error_msg = ''Sorry, I encountered an error while generating a response.''"

text \<open>\<open>discord.Embed()\<close>.\<close>

definition Embed :: embed where
  "Embed = \<lparr>title = None, description = None, color = None, embed_fields = []\<rparr>"

text \<open>
  What is fixed while one response is produced: \<open>use_plain_responses\<close>,
  \<open>max_message_length\<close> (lines 628-634) and the trigger message \<open>new_msg\<close>.
\<close>

record response_ctx =
  use_plain_responses :: bool
  max_message_length :: nat
  new_msg :: message

definition max_message_length_of :: "bool \<Rightarrow> nat" where
  "max_message_length_of plain = (if \<not> plain then 4096 - length STREAMING_INDICATOR else 2000)"

text \<open>
  The variables of the driver. \<open>embed\<close> is the embed object of lines 630-632 (with the
  warnings field when there are warnings), replaced by a fresh one at line 679; it is unused
  in plain mode. \<open>nodes\<close> is the global \<open>msg_nodes\<close>.
\<close>

record driver_state =
  response_msgs :: "response_msg list"
  response_contents :: "string list"
  embed :: embed
  curr_content :: string
  chunk_buffer :: string
  last_edit_time :: real
  nodes :: "int \<rightharpoonup> msg_node"
  platform :: platform

text \<open>
  \<open>reply_helper\<close> (lines 636-642): reply to the trigger message or to the last response
  message, remember the new message, register its node with the trigger as parent and take
  the node's lock. The result is the exception raised, if any, and the state.
\<close>

definition reply_helper ::
  "response_ctx \<Rightarrow> phase \<Rightarrow> payload \<Rightarrow> bool \<Rightarrow> driver_state \<Rightarrow> py_error option \<times> driver_state" where
  "reply_helper ctx ph p silent st =
     (let reply_target = (if response_msgs st = [] then msg_id (new_msg ctx)
                          else rm_id (last (response_msgs st)))
      in case api_reply ph reply_target p silent (platform st) of
           (Inl e, pf) \<Rightarrow> (Some e, st\<lparr>platform := pf\<rparr>)
         | (Inr response_msg, pf) \<Rightarrow>
             (None,
              st\<lparr>platform := pf,
                 response_msgs := response_msgs st @ [response_msg],
                 nodes := (nodes st)(rm_id response_msg \<mapsto>
                            MsgNode\<lparr>parent_msg := Some (new_msg ctx), lock_held := True\<rparr>)\<rparr>))"

text \<open>\<open>await response_msgs[-1].edit(...)\<close>: \<open>IndexError\<close> when no response message exists.\<close>

definition edit_last :: "phase \<Rightarrow> payload \<Rightarrow> driver_state \<Rightarrow> py_error option \<times> driver_state" where
  "edit_last ph p st =
     (if response_msgs st = [] then (Some IndexError, st)
      else (case api_edit ph (rm_id (last (response_msgs st))) p (platform st) of
              (r, pf) \<Rightarrow> (r, st\<lparr>platform := pf\<rparr>)))"

text \<open>
  Lines 667-685, taken when the last content with the buffer exceeds the capacity. An
  exception ends the processing of the chunk where it is raised (lines 707-709); the state
  reached by then remains.
\<close>

definition start_new_message :: "response_ctx \<Rightarrow> real \<Rightarrow> driver_state \<Rightarrow> driver_state" where
  "start_new_message ctx current_time st =
     (if \<not> use_plain_responses ctx then
        (let st1 = st\<lparr>embed := (embed st)\<lparr>description := Some (last (response_contents st)),
                                          color := Some dark_green\<rparr>\<rparr>
         in case edit_last (Streaming current_time) (EmbedPayload (embed st1)) st1 of
              (Some e, st2) \<Rightarrow> st2
            | (None, st2) \<Rightarrow>
                (let st3 = st2\<lparr>response_contents := response_contents st2 @ [chunk_buffer st2],
                               chunk_buffer := []\<rparr>;
                     st4 = st3\<lparr>embed := Embed\<lparr>description :=
                                                 Some (last (response_contents st3) @ STREAMING_INDICATOR),
                                               color := Some orange\<rparr>\<rparr>
                 in case reply_helper ctx (Streaming current_time) (EmbedPayload (embed st4)) True st4 of
                      (Some e, st5) \<Rightarrow> st5
                    | (None, st5) \<Rightarrow> st5\<lparr>last_edit_time := current_time\<rparr>))
      else st\<lparr>response_contents := response_contents st @ [chunk_buffer st], chunk_buffer := []\<rparr>)"

text \<open>Lines 688-698, taken for the first chunk with text.\<close>

definition init_first_message :: "response_ctx \<Rightarrow> real \<Rightarrow> driver_state \<Rightarrow> driver_state" where
  "init_first_message ctx current_time st =
     (let st1 = st\<lparr>response_contents := response_contents st @ [chunk_buffer st], chunk_buffer := []\<rparr>
      in if \<not> use_plain_responses ctx then
           (let st2 = st1\<lparr>embed := (embed st1)\<lparr>description :=
                                        Some (last (response_contents st1) @ STREAMING_INDICATOR),
                                      color := Some orange\<rparr>\<rparr>
            in case reply_helper ctx (Streaming current_time) (EmbedPayload (embed st2)) True st2 of
                 (Some e, st3) \<Rightarrow> st3
               | (None, st3) \<Rightarrow> st3\<lparr>last_edit_time := current_time\<rparr>)
         else st1)"

text \<open>Lines 701-705, the periodic edit of rich mode.\<close>

definition periodic_edit :: "response_ctx \<Rightarrow> real \<Rightarrow> driver_state \<Rightarrow> driver_state" where
  "periodic_edit ctx current_time st =
     (let st1 = st\<lparr>embed := (embed st)\<lparr>description :=
                                 Some (last (response_contents st) @ chunk_buffer st
                                       @ STREAMING_INDICATOR),
                               color := Some orange\<rparr>\<rparr>
      in case edit_last (Streaming current_time) (EmbedPayload (embed st1)) st1 of
           (Some e, st2) \<Rightarrow> st2
         | (None, st2) \<Rightarrow> st2\<lparr>last_edit_time := current_time\<rparr>)"

text \<open>Lines 658-709: one chunk. Nothing that is raised here leaves the loop.\<close>

definition process_text :: "response_ctx \<Rightarrow> string \<Rightarrow> real \<Rightarrow> driver_state \<Rightarrow> driver_state" where
  "process_text ctx txt current_time st0 =
     (let st = st0\<lparr>chunk_buffer := chunk_buffer st0 @ txt, curr_content := curr_content st0 @ txt\<rparr>;
          time_since_edit = current_time - last_edit_time st
      in if response_contents st \<noteq> []
            \<and> length (last (response_contents st) @ chunk_buffer st) > max_message_length ctx
         then start_new_message ctx current_time st
         else if response_contents st = [] then init_first_message ctx current_time st
         else if \<not> use_plain_responses ctx \<and> time_since_edit \<ge> EDIT_DELAY_SECONDS
         then periodic_edit ctx current_time st
         else st)"

definition process_chunk :: "response_ctx \<Rightarrow> chunk \<Rightarrow> real \<Rightarrow> driver_state \<Rightarrow> driver_state" where
  "process_chunk ctx c current_time st =
     (case c of
        TextChunk txt \<Rightarrow> process_text ctx txt current_time st
      | NoTextChunk \<Rightarrow> st
      | BadChunk \<Rightarrow> st)"

text \<open>
  The \<open>for\<close> loop of line 657: it ends with the stream, or with the exception of the
  generation call.
\<close>

fun stream_loop :: "response_ctx \<Rightarrow> stream_item list \<Rightarrow> driver_state \<Rightarrow> py_error option \<times> driver_state" where
  "stream_loop ctx [] st = (None, st)"
| "stream_loop ctx (StreamFails # rest) st = (Some GenerationError, st)"
| "stream_loop ctx (Chunk c current_time # rest) st =
     stream_loop ctx rest (process_chunk ctx c current_time st)"

text \<open>
  Lines 711-732, the final update. The buffer left over is added to the last content
  (\<open>response_contents[-1] += chunk_buffer\<close>, \<open>IndexError\<close> on an empty list); then every
  content is shown: in rich mode the \<open>i\<close>-th content on the \<open>i\<close>-th response message, created
  now if it does not exist; in plain mode as a new reply, or as an edit of the last response
  message when that one was sent with empty content.
\<close>

definition flush_buffer :: "driver_state \<Rightarrow> py_error option \<times> driver_state" where
  "flush_buffer st =
     (if chunk_buffer st \<noteq> [] then
        (if response_contents st = [] then (Some IndexError, st)
         else (None, st\<lparr>response_contents :=
                          butlast (response_contents st)
                          @ [last (response_contents st) @ chunk_buffer st]\<rparr>))
      else (None, st))"

definition edit_nth :: "phase \<Rightarrow> nat \<Rightarrow> payload \<Rightarrow> driver_state \<Rightarrow> py_error option \<times> driver_state" where
  "edit_nth ph i p st =
     (if i < length (response_msgs st)
      then (case api_edit ph (rm_id (response_msgs st ! i)) p (platform st) of
              (r, pf) \<Rightarrow> (r, st\<lparr>platform := pf\<rparr>))
      else (Some IndexError, st))"

fun final_rich ::
  "response_ctx \<Rightarrow> nat \<Rightarrow> string list \<Rightarrow> driver_state \<Rightarrow> py_error option \<times> driver_state" where
  "final_rich ctx i [] st = (None, st)"
| "final_rich ctx i (content' # rest) st =
     (let st1 = st\<lparr>embed := (embed st)\<lparr>description := Some content', color := Some dark_green\<rparr>\<rparr>
      in case (if i < length (response_msgs st1)
               then edit_nth FinalUpdate i (EmbedPayload (embed st1)) st1
               else reply_helper ctx FinalUpdate (EmbedPayload (embed st1)) True st1) of
           (Some e, st2) \<Rightarrow> (Some e, st2)
         | (None, st2) \<Rightarrow> final_rich ctx (Suc i) rest st2)"

fun final_plain ::
  "response_ctx \<Rightarrow> string list \<Rightarrow> driver_state \<Rightarrow> py_error option \<times> driver_state" where
  "final_plain ctx [] st = (None, st)"
| "final_plain ctx (content' # rest) st =
     (case (if response_msgs st = [] \<or> rm_content (last (response_msgs st)) \<noteq> []
            then reply_helper ctx FinalUpdate (ContentPayload content') False st
            else edit_last FinalUpdate (ContentPayload content') st) of
        (Some e, st1) \<Rightarrow> (Some e, st1)
      | (None, st1) \<Rightarrow> final_plain ctx rest st1)"

definition final_update :: "response_ctx \<Rightarrow> driver_state \<Rightarrow> py_error option \<times> driver_state" where
  "final_update ctx st =
     (case flush_buffer st of
        (Some e, st1) \<Rightarrow> (Some e, st1)
      | (None, st1) \<Rightarrow>
          if \<not> use_plain_responses ctx then final_rich ctx 0 (response_contents st1) st1
          else final_plain ctx (response_contents st1) st1)"

text \<open>The \<open>try\<close> block of lines 644-732: the stream loop, then the final update.\<close>

definition try_block ::
  "response_ctx \<Rightarrow> stream_item list \<Rightarrow> driver_state \<Rightarrow> py_error option \<times> driver_state" where
  "try_block ctx items st =
     (case stream_loop ctx items st of
        (Some e, st1) \<Rightarrow> (Some e, st1)
      | (None, st1) \<Rightarrow> final_update ctx st1)"

text \<open>
  The handler of lines 734-749: the error text goes to the last response message, or to a
  new reply when there is none. An exception raised here leaves \<open>on_message\<close>.
\<close>

definition error_handler :: "response_ctx \<Rightarrow> driver_state \<Rightarrow> py_error option \<times> driver_state" where
  "error_handler ctx st =
     (if \<not> use_plain_responses ctx then
        (let st1 = st\<lparr>embed := (embed st)\<lparr>description := Some error_msg, color := Some red\<rparr>\<rparr>
         in if response_msgs st1 \<noteq> [] then edit_last ErrorHandler (EmbedPayload (embed st1)) st1
            else reply_helper ctx ErrorHandler (EmbedPayload (embed st1)) False st1)
      else if response_msgs st \<noteq> [] then edit_last ErrorHandler (ContentPayload error_msg) st
      else reply_helper ctx ErrorHandler (ContentPayload error_msg) False st)"

text \<open>
  Lines 751-754: every response message's node receives the joined contents as text, and
  its lock is released. \<open>msg_nodes[id]\<close> raises \<open>KeyError\<close> on a missing node and
  \<open>Lock.release\<close> raises \<open>RuntimeError\<close> on a lock that is not held.
\<close>

fun store_loop ::
  "string \<Rightarrow> response_msg list \<Rightarrow> (int \<rightharpoonup> msg_node) \<Rightarrow> py_error option \<times> (int \<rightharpoonup> msg_node)" where
  "store_loop t [] ns = (None, ns)"
| "store_loop t (response_msg # rest) ns =
     (case ns (rm_id response_msg) of
        None \<Rightarrow> (Some KeyError, ns)
      | Some n \<Rightarrow>
          if \<not> lock_held n
          then (Some RuntimeError, ns(rm_id response_msg \<mapsto> n\<lparr>node_text := Some t\<rparr>))
          else store_loop t rest
                 (ns(rm_id response_msg \<mapsto> n\<lparr>node_text := Some t, lock_held := False\<rparr>)))"

text \<open>
  How the response ends: \<open>Completed\<close> after the final update, \<open>Failed\<close> after the error
  handler has shown the error text, \<open>Crashed e\<close> when the exception \<open>e\<close> leaves the handler.
\<close>

datatype outcome = Completed | Failed | Crashed py_error

definition store_final :: "outcome \<Rightarrow> driver_state \<Rightarrow> outcome \<times> driver_state" where
  "store_final oc st =
     (case store_loop (concat (response_contents st)) (response_msgs st) (nodes st) of
        (Some e, ns) \<Rightarrow> (Crashed e, st\<lparr>nodes := ns\<rparr>)
      | (None, ns) \<Rightarrow> (oc, st\<lparr>nodes := ns\<rparr>))"

text \<open>
  Lines 623-754 as a whole, from the state \<open>st0\<close> in which the \<open>try\<close> block is entered. The
  eviction of old nodes (lines 757-760) comes after it and is not part of \<open>respond\<close>.
\<close>

definition respond :: "response_ctx \<Rightarrow> stream_item list \<Rightarrow> driver_state \<Rightarrow> outcome \<times> driver_state" where
  "respond ctx items st0 =
     (case try_block ctx items st0 of
        (None, st1) \<Rightarrow> store_final Completed st1
      | (Some e, st1) \<Rightarrow>
          (case error_handler ctx st1 of
             (Some e', st2) \<Rightarrow> (Crashed e', st2)
           | (None, st2) \<Rightarrow> store_final Failed st2))"

text \<open>Lines 625-626 and 653-655: the driver's variables at the start.\<close>

definition driver_init :: "embed \<Rightarrow> (int \<rightharpoonup> msg_node) \<Rightarrow> platform \<Rightarrow> driver_state" where
  "driver_init embed0 cache pf =
     \<lparr>response_msgs = [], response_contents = [], embed = embed0, curr_content = [],
      chunk_buffer = [], last_edit_time = 0, nodes = cache, platform = pf\<rparr>"

text \<open>A platform on which nothing has been sent yet; \<open>f\<close> decides the failing calls.\<close>

definition fresh_platform :: "int \<Rightarrow> (nat \<Rightarrow> py_error option) \<Rightarrow> platform" where
  "fresh_platform first_id f =
     \<lparr>next_id = first_id, shown = Map.empty, reply_to = Map.empty, calls = [], outcomes = f\<rparr>"

section \<open>Properties of the driver's state and of the platform's log\<close>

text \<open>
  \<open>registered ctx first_id st\<close>: the response messages are the messages created on the
  platform since its id counter stood at \<open>first_id\<close>, in the order of their creation, and the
  node of each is the one \<open>reply_helper\<close> made: empty, with the trigger message as parent, its
  lock held.
\<close>

definition registered :: "response_ctx \<Rightarrow> int \<Rightarrow> driver_state \<Rightarrow> bool" where
  "registered ctx first_id st \<longleftrightarrow>
     first_id \<le> next_id (platform st)
     \<and> map rm_id (response_msgs st) = [first_id .. next_id (platform st) - 1]
     \<and> (\<forall>rm \<in> set (response_msgs st).
           nodes st (rm_id rm)
             = Some (MsgNode\<lparr>parent_msg := Some (new_msg ctx), lock_held := True\<rparr>))"

text \<open>
  Kinds of log entries. An in-progress edit is an edit with an orange embed (line 704, the
  periodic edit: the only edit the driver issues in that colour). The edit timer
  \<open>last_edit_time\<close> is set after a successful reply and after a successful in-progress edit
  of the stream loop (lines 683, 696, 705).
\<close>

definition in_progress_edit :: "log_entry \<Rightarrow> bool" where
  "in_progress_edit e =
     (case le_call e of
        EditMsg i (EmbedPayload em) \<Rightarrow> color em = Some orange
      | _ \<Rightarrow> False)"

definition is_edit :: "log_entry \<Rightarrow> bool" where
  "is_edit e = (case le_call e of EditMsg i p \<Rightarrow> True | _ \<Rightarrow> False)"

definition is_reply :: "log_entry \<Rightarrow> bool" where
  "is_reply e = (case le_call e of ReplyTo i p s \<Rightarrow> True | _ \<Rightarrow> False)"

definition resets_timer :: "log_entry \<Rightarrow> bool" where
  "resets_timer e \<longleftrightarrow> le_ok e \<and> (is_reply e \<or> in_progress_edit e)"

text \<open>
  The clock reading of an entry of the stream loop: the value read at line 663 for the chunk
  during whose processing the call was issued. It is the value that the source compares with
  \<open>last_edit_time\<close> (line 664) and stores there (lines 683, 696, 705).
\<close>

definition chunk_reading :: "log_entry \<Rightarrow> real option" where
  "chunk_reading e = (case le_phase e of Streaming t \<Rightarrow> Some t | _ \<Rightarrow> None)"

text \<open>The clock readings of the chunks of a stream, in order.\<close>

fun item_times :: "stream_item list \<Rightarrow> real list" where
  "item_times [] = []"
| "item_times (Chunk c t # rest) = t # item_times rest"
| "item_times (StreamFails # rest) = item_times rest"

text \<open>
  \<open>readings_apart e e'\<close>: both entries belong to the stream loop and the clock reading of
  \<open>e'\<close> is at least \<open>EDIT_DELAY_SECONDS\<close> above the clock reading of \<open>e\<close>.
  \<open>readings_spaced es\<close>: the reading of every in-progress edit of the log is at least that
  much above the reading of every earlier entry that set the edit timer. Both speak of the
  readings of line 663, which is what the source measures; they say nothing of the time at
  which a call is issued.
\<close>

definition readings_apart :: "log_entry \<Rightarrow> log_entry \<Rightarrow> bool" where
  "readings_apart e e' =
     (case (chunk_reading e, chunk_reading e') of
        (Some t, Some t') \<Rightarrow> t' - t \<ge> EDIT_DELAY_SECONDS
      | _ \<Rightarrow> False)"

definition readings_spaced :: "log_entry list \<Rightarrow> bool" where
  "readings_spaced es \<longleftrightarrow>
     (\<forall>j < length es. in_progress_edit (es ! j)
        \<longrightarrow> (\<forall>i < j. resets_timer (es ! i) \<longrightarrow> readings_apart (es ! i) (es ! j)))"

text \<open>
  The invariant of the stream loop behind it: the readings of the log are spaced, no entry
  has a reading above the clock reading \<open>T\<close> reached, and no entry that set the timer has a
  reading above \<open>last_edit_time\<close>.
\<close>

definition timing_inv :: "real \<Rightarrow> driver_state \<Rightarrow> bool" where
  "timing_inv T st \<longleftrightarrow>
     readings_spaced (calls (platform st))
     \<and> (\<forall>e \<in> set (calls (platform st)). \<exists>t. chunk_reading e = Some t \<and> t \<le> T)
     \<and> (\<forall>e \<in> set (calls (platform st)).
           resets_timer e \<longrightarrow> (\<exists>t. chunk_reading e = Some t \<and> t \<le> last_edit_time st))"

text \<open>
  The response text received from the generation stream: the texts of its chunks, in order,
  up to the point where the stream fails. It is what the source has added to \<open>curr_content\<close>
  and to \<open>chunk_buffer\<close> (lines 660-661) by the time the stream loop ends.
\<close>

fun received :: "stream_item list \<Rightarrow> string" where
  "received [] = []"
| "received (StreamFails # rest) = []"
| "received (Chunk (TextChunk txt) current_time # rest) = txt @ received rest"
| "received (Chunk NoTextChunk current_time # rest) = received rest"
| "received (Chunk BadChunk current_time # rest) = received rest"

text \<open>
  What the error handler sends, and with which call: an edit of the last response message,
  or a reply to the trigger message when there is no response message.
\<close>

definition error_payload :: "response_ctx \<Rightarrow> driver_state \<Rightarrow> payload" where
  "error_payload ctx st =
     (if \<not> use_plain_responses ctx
      then EmbedPayload ((embed st)\<lparr>description := Some error_msg, color := Some red\<rparr>)
      else ContentPayload error_msg)"

definition error_call :: "response_ctx \<Rightarrow> driver_state \<Rightarrow> call" where
  "error_call ctx st =
     (if response_msgs st = [] then ReplyTo (msg_id (new_msg ctx)) (error_payload ctx st) False
      else EditMsg (rm_id (last (response_msgs st))) (error_payload ctx st))"

definition error_target :: "driver_state \<Rightarrow> int" where
  "error_target st =
     (if response_msgs st = [] then next_id (platform st) else rm_id (last (response_msgs st)))"

section \<open>Example inputs for the response driver\<close>

text \<open>
  Rich mode with the capacity of line 629, the trigger \<open>ex_said_hi\<close>, an embed without
  warnings, an empty cache. On \<open>ex_platform\<close> every call succeeds; on \<open>ex_platform_edit_fails\<close>
  the second call fails. Ids of new messages start at 1000.
\<close>

definition ex_ctx :: response_ctx where
  "ex_ctx = \<lparr>use_plain_responses = False, max_message_length = max_message_length_of False,
             new_msg = ex_said_hi\<rparr>"

definition ex_platform :: platform where
  "ex_platform = fresh_platform 1000 (\<lambda>k. None)"

definition ex_platform_edit_fails :: platform where
  "ex_platform_edit_fails = fresh_platform 1000 (\<lambda>k. if k = 1 then Some HTTPException else None)"

definition ex_driver_init :: driver_state where
  "ex_driver_init = driver_init Embed Map.empty ex_platform"

definition ex_driver_init_edit_fails :: driver_state where
  "ex_driver_init_edit_fails = driver_init Embed Map.empty ex_platform_edit_fails"

text \<open>
  Streams. \<open>ex_stream_hello\<close>: two chunks read three seconds apart. \<open>ex_stream_cut\<close>: the
  same two chunks read one second apart, after which the stream fails. \<open>ex_stream_abc\<close>:
  three short chunks. \<open>ex_stream_overflow\<close>: after the first chunk, 4000 characters read at
  second 103 and 100 more read half a second later, which exceed the capacity of 4094.
  \<open>section8_stream filler\<close>: the deltas \<open>"Hello "\<close>, \<open>"world, "\<close>, a filler, \<open>"overflow!"\<close>,
  one second apart.
\<close>

definition ex_stream_hello :: "stream_item list" where
  "ex_stream_hello = [Chunk (TextChunk ''Hello '') 100, Chunk (TextChunk ''world'') 103]"

definition ex_stream_cut :: "stream_item list" where
  "ex_stream_cut =
     [Chunk (TextChunk ''Hello '') 100, Chunk (TextChunk ''world'') 101, StreamFails]"

definition ex_stream_abc :: "stream_item list" where
  "ex_stream_abc =
     [Chunk (TextChunk ''a'') 100, Chunk (TextChunk ''b'') 103, Chunk (TextChunk ''c'') 104]"

definition ex_stream_overflow :: "stream_item list" where
  "ex_stream_overflow =
     [Chunk (TextChunk ''a'') 100,
      Chunk (TextChunk (replicate 4000 (CHR ''x''))) 103,
      Chunk (TextChunk (replicate 100 (CHR ''y''))) (207 / 2)]"

definition section8_stream :: "string \<Rightarrow> stream_item list" where
  "section8_stream filler =
     [Chunk (TextChunk ''Hello '') 100, Chunk (TextChunk ''world, '') 101,
      Chunk (TextChunk filler) 102, Chunk (TextChunk ''overflow!'') 103]"

text \<open>
  Two states in the middle of a stream. \<open>ex_state_active\<close> (rich mode): one response message
  showing \<open>"Hello "\<close>, 4090 characters buffered since. \<open>ex_state_plain\<close> (plain mode): 1995
  characters committed, nothing sent yet.
\<close>

definition ex_state_active :: driver_state where
  "ex_state_active =
     \<lparr>response_msgs = [\<lparr>rm_id = 1000, rm_content = []\<rparr>], response_contents = [''Hello ''],
      embed = Embed\<lparr>description := Some (''Hello '' @ STREAMING_INDICATOR), color := Some orange\<rparr>,
      curr_content = ''Hello '' @ replicate 4090 (CHR ''x''),
      chunk_buffer = replicate 4090 (CHR ''x''), last_edit_time = 100,
      nodes = [1000 \<mapsto> MsgNode\<lparr>parent_msg := Some ex_said_hi, lock_held := True\<rparr>],
      platform = \<lparr>next_id = 1001,
                   shown = [1000 \<mapsto> EmbedPayload (Embed\<lparr>description :=
                                         Some (''Hello '' @ STREAMING_INDICATOR),
                                       color := Some orange\<rparr>)],
                   reply_to = [1000 \<mapsto> 2],
                   calls = [\<lparr>le_call = ReplyTo 2 (EmbedPayload (Embed\<lparr>description :=
                                         Some (''Hello '' @ STREAMING_INDICATOR),
                                       color := Some orange\<rparr>)) True,
                              le_phase = Streaming 100, le_ok = True\<rparr>],
                   outcomes = (\<lambda>k. None)\<rparr>\<rparr>"

definition ex_ctx_plain :: response_ctx where
  "ex_ctx_plain = \<lparr>use_plain_responses = True, max_message_length = max_message_length_of True,
                   new_msg = ex_said_hi\<rparr>"

definition ex_state_plain :: driver_state where
  "ex_state_plain =
     \<lparr>response_msgs = [], response_contents = [replicate 1995 (CHR ''x'')], embed = Embed,
      curr_content = replicate 1995 (CHR ''x''), chunk_buffer = [], last_edit_time = 0,
      nodes = Map.empty, platform = ex_platform\<rparr>"

section \<open>Theorems: permission gate\<close>

lemma filter_None_set:
  "set (filter_None xs) = {i. Some i \<in> set xs \<and> i \<noteq> 0}"
  by (induction xs rule: filter_None.induct) auto

text \<open>
  C1, as stated, fails: an administrator writing in a guild channel that is outside a
  non-empty channel allow-list is rejected although no block-list names the author, a role
  or the channel.
\<close>

theorem admin_guild_channel_counterexample:
  "user_is_admin
     \<lparr>allow_dms_opt = None,
      permissions = \<lparr>perm_users = \<lparr>allowed_ids = [], blocked_ids = []\<rparr>, admin_ids = [1],
                     perm_roles = \<lparr>allowed_ids = [], blocked_ids = []\<rparr>,
                     perm_channels = \<lparr>allowed_ids = [5], blocked_ids = []\<rparr>\<rparr>\<rparr>
     \<lparr>author_id = 1, author_role_ids = [], is_dm = False, channel_id = 7,
      channel_parent_id = None, channel_category_id = None\<rparr>
   \<and> \<not> user_blocked
     \<lparr>allow_dms_opt = None,
      permissions = \<lparr>perm_users = \<lparr>allowed_ids = [], blocked_ids = []\<rparr>, admin_ids = [1],
                     perm_roles = \<lparr>allowed_ids = [], blocked_ids = []\<rparr>,
                     perm_channels = \<lparr>allowed_ids = [5], blocked_ids = []\<rparr>\<rparr>\<rparr>
     \<lparr>author_id = 1, author_role_ids = [], is_dm = False, channel_id = 7,
      channel_parent_id = None, channel_category_id = None\<rparr>
   \<and> \<not> channel_blocked
     \<lparr>allow_dms_opt = None,
      permissions = \<lparr>perm_users = \<lparr>allowed_ids = [], blocked_ids = []\<rparr>, admin_ids = [1],
                     perm_roles = \<lparr>allowed_ids = [], blocked_ids = []\<rparr>,
                     perm_channels = \<lparr>allowed_ids = [5], blocked_ids = []\<rparr>\<rparr>\<rparr>
     \<lparr>author_id = 1, author_role_ids = [], is_dm = False, channel_id = 7,
      channel_parent_id = None, channel_category_id = None\<rparr>
   \<and> \<not> gate_passes
     \<lparr>allow_dms_opt = None,
      permissions = \<lparr>perm_users = \<lparr>allowed_ids = [], blocked_ids = []\<rparr>, admin_ids = [1],
                     perm_roles = \<lparr>allowed_ids = [], blocked_ids = []\<rparr>,
                     perm_channels = \<lparr>allowed_ids = [5], blocked_ids = []\<rparr>\<rparr>\<rparr>
     \<lparr>author_id = 1, author_role_ids = [], is_dm = False, channel_id = 7,
      channel_parent_id = None, channel_category_id = None\<rparr>"
  by (simp add: user_is_admin_def user_blocked_def channel_blocked_def gate_passes_def
      is_bad_user_def is_bad_channel_def is_good_user_def is_good_channel_def
      allow_all_users_def allow_all_channels_def role_ids_def channel_ids_def
      allowed_user_ids_def allowed_role_ids_def allowed_channel_ids_def
      blocked_user_ids_def blocked_role_ids_def blocked_channel_ids_def)

text \<open>
  C1, amended: the event is processed exactly when the author and the channel are in no
  block-list and
  \<^item> for an administrator: the event is a direct message, or the channel allow-list is empty,
    or it names the channel, its parent or its category (the administrator bypasses the user
    allow-check everywhere and the allow-DMs flag in direct messages, but not the channel
    allow-list of a guild channel);
  \<^item> for everyone else: the author passes the user allow-check and the channel passes the
    channel allow-check.
\<close>

theorem gate_final_decision:
  "gate_passes cfg ev \<longleftrightarrow>
     \<not> user_blocked cfg ev \<and> \<not> channel_blocked cfg ev \<and>
     (if user_is_admin cfg ev
      then is_dm ev \<or> allowed_channel_ids cfg = []
           \<or> channel_ids ev \<inter> set (allowed_channel_ids cfg) \<noteq> {}
      else is_good_user cfg ev \<and> is_good_channel cfg ev)"
  unfolding gate_passes_def is_bad_user_def is_bad_channel_def user_blocked_def
    channel_blocked_def is_good_user_def is_good_channel_def allow_all_channels_def
  by auto

theorem gate_final_decision_witness:
  "gate_passes
     \<lparr>allow_dms_opt = Some False,
      permissions = \<lparr>perm_users = \<lparr>allowed_ids = [2], blocked_ids = []\<rparr>, admin_ids = [1],
                     perm_roles = \<lparr>allowed_ids = [], blocked_ids = []\<rparr>,
                     perm_channels = \<lparr>allowed_ids = [5], blocked_ids = [8]\<rparr>\<rparr>\<rparr>
     \<lparr>author_id = 1, author_role_ids = [], is_dm = True, channel_id = 7,
      channel_parent_id = None, channel_category_id = None\<rparr>"
  using gate_final_decision
    [of "\<lparr>allow_dms_opt = Some False,
      permissions = \<lparr>perm_users = \<lparr>allowed_ids = [2], blocked_ids = []\<rparr>, admin_ids = [1],
                     perm_roles = \<lparr>allowed_ids = [], blocked_ids = []\<rparr>,
                     perm_channels = \<lparr>allowed_ids = [5], blocked_ids = [8]\<rparr>\<rparr>\<rparr>"
        "\<lparr>author_id = 1, author_role_ids = [], is_dm = True, channel_id = 7,
      channel_parent_id = None, channel_category_id = None\<rparr>"]
  by (simp add: user_is_admin_def user_blocked_def channel_blocked_def
      role_ids_def channel_ids_def blocked_user_ids_def blocked_role_ids_def
      blocked_channel_ids_def)

text \<open>
  C2, as stated, fails: in a guild, with an empty user allow-list and a non-empty role
  allow-list, an author who holds none of the allowed roles does not pass the user
  allow-check.
\<close>

theorem empty_user_allow_set_counterexample:
  "\<not> is_dm \<lparr>author_id = 2, author_role_ids = [], is_dm = False, channel_id = 7,
            channel_parent_id = None, channel_category_id = None\<rparr>
   \<and> allowed_user_ids
       \<lparr>allow_dms_opt = None,
        permissions = \<lparr>perm_users = \<lparr>allowed_ids = [], blocked_ids = []\<rparr>, admin_ids = [],
                       perm_roles = \<lparr>allowed_ids = [9], blocked_ids = []\<rparr>,
                       perm_channels = \<lparr>allowed_ids = [], blocked_ids = []\<rparr>\<rparr>\<rparr> = []
   \<and> \<not> is_good_user
       \<lparr>allow_dms_opt = None,
        permissions = \<lparr>perm_users = \<lparr>allowed_ids = [], blocked_ids = []\<rparr>, admin_ids = [],
                       perm_roles = \<lparr>allowed_ids = [9], blocked_ids = []\<rparr>,
                       perm_channels = \<lparr>allowed_ids = [], blocked_ids = []\<rparr>\<rparr>\<rparr>
       \<lparr>author_id = 2, author_role_ids = [], is_dm = False, channel_id = 7,
        channel_parent_id = None, channel_category_id = None\<rparr>"
  by (simp add: is_good_user_def allow_all_users_def user_is_admin_def role_ids_def
      allowed_user_ids_def allowed_role_ids_def)

text \<open>
  C2, amended: the user and role allow-lists form one check. In a guild event every author
  passes it when both lists are empty; when the user allow-list is empty and the role
  allow-list is not, a non-administrator passes exactly when holding an allowed role. In a
  direct message an empty user allow-list lets every author pass. An empty channel
  allow-list lets every guild channel pass; in a direct message the channel check is the
  allow-DMs flag, or the author being an administrator.
\<close>

theorem empty_allow_sets:
  "(\<not> is_dm ev \<and> allowed_user_ids cfg = [] \<and> allowed_role_ids cfg = [] \<longrightarrow> is_good_user cfg ev)
   \<and> (\<not> is_dm ev \<and> allowed_user_ids cfg = [] \<and> allowed_role_ids cfg \<noteq> []
        \<and> \<not> user_is_admin cfg ev
      \<longrightarrow> (is_good_user cfg ev \<longleftrightarrow> role_ids ev \<inter> set (allowed_role_ids cfg) \<noteq> {}))
   \<and> (is_dm ev \<and> allowed_user_ids cfg = [] \<longrightarrow> is_good_user cfg ev)
   \<and> (\<not> is_dm ev \<and> allowed_channel_ids cfg = [] \<longrightarrow> is_good_channel cfg ev)
   \<and> (is_dm ev \<longrightarrow> (is_good_channel cfg ev \<longleftrightarrow> user_is_admin cfg ev \<or> allow_dms cfg))"
  unfolding is_good_user_def is_good_channel_def allow_all_users_def allow_all_channels_def
  by auto

theorem empty_allow_sets_witness:
  "is_good_user
       \<lparr>allow_dms_opt = None,
        permissions = \<lparr>perm_users = \<lparr>allowed_ids = [], blocked_ids = []\<rparr>, admin_ids = [],
                       perm_roles = \<lparr>allowed_ids = [], blocked_ids = []\<rparr>,
                       perm_channels = \<lparr>allowed_ids = [], blocked_ids = []\<rparr>\<rparr>\<rparr>
       \<lparr>author_id = 2, author_role_ids = [4], is_dm = False, channel_id = 7,
        channel_parent_id = None, channel_category_id = None\<rparr>
   \<and> is_good_channel
       \<lparr>allow_dms_opt = None,
        permissions = \<lparr>perm_users = \<lparr>allowed_ids = [], blocked_ids = []\<rparr>, admin_ids = [],
                       perm_roles = \<lparr>allowed_ids = [], blocked_ids = []\<rparr>,
                       perm_channels = \<lparr>allowed_ids = [], blocked_ids = []\<rparr>\<rparr>\<rparr>
       \<lparr>author_id = 2, author_role_ids = [4], is_dm = False, channel_id = 7,
        channel_parent_id = None, channel_category_id = None\<rparr>
   \<and> is_good_user
       \<lparr>allow_dms_opt = None,
        permissions = \<lparr>perm_users = \<lparr>allowed_ids = [], blocked_ids = []\<rparr>, admin_ids = [],
                       perm_roles = \<lparr>allowed_ids = [9], blocked_ids = []\<rparr>,
                       perm_channels = \<lparr>allowed_ids = [], blocked_ids = []\<rparr>\<rparr>\<rparr>
       \<lparr>author_id = 2, author_role_ids = [9], is_dm = False, channel_id = 7,
        channel_parent_id = None, channel_category_id = None\<rparr>
   \<and> is_good_user
       \<lparr>allow_dms_opt = None,
        permissions = \<lparr>perm_users = \<lparr>allowed_ids = [], blocked_ids = []\<rparr>, admin_ids = [],
                       perm_roles = \<lparr>allowed_ids = [9], blocked_ids = []\<rparr>,
                       perm_channels = \<lparr>allowed_ids = [], blocked_ids = []\<rparr>\<rparr>\<rparr>
       \<lparr>author_id = 2, author_role_ids = [], is_dm = True, channel_id = 7,
        channel_parent_id = None, channel_category_id = None\<rparr>
   \<and> is_good_channel
       \<lparr>allow_dms_opt = None,
        permissions = \<lparr>perm_users = \<lparr>allowed_ids = [], blocked_ids = []\<rparr>, admin_ids = [],
                       perm_roles = \<lparr>allowed_ids = [9], blocked_ids = []\<rparr>,
                       perm_channels = \<lparr>allowed_ids = [], blocked_ids = []\<rparr>\<rparr>\<rparr>
       \<lparr>author_id = 2, author_role_ids = [], is_dm = True, channel_id = 7,
        channel_parent_id = None, channel_category_id = None\<rparr>"
  using
    empty_allow_sets
      [of "\<lparr>author_id = 2, author_role_ids = [4], is_dm = False, channel_id = 7,
        channel_parent_id = None, channel_category_id = None\<rparr>"
          "\<lparr>allow_dms_opt = None,
        permissions = \<lparr>perm_users = \<lparr>allowed_ids = [], blocked_ids = []\<rparr>, admin_ids = [],
                       perm_roles = \<lparr>allowed_ids = [], blocked_ids = []\<rparr>,
                       perm_channels = \<lparr>allowed_ids = [], blocked_ids = []\<rparr>\<rparr>\<rparr>"]
    empty_allow_sets
      [of "\<lparr>author_id = 2, author_role_ids = [9], is_dm = False, channel_id = 7,
        channel_parent_id = None, channel_category_id = None\<rparr>"
          "\<lparr>allow_dms_opt = None,
        permissions = \<lparr>perm_users = \<lparr>allowed_ids = [], blocked_ids = []\<rparr>, admin_ids = [],
                       perm_roles = \<lparr>allowed_ids = [9], blocked_ids = []\<rparr>,
                       perm_channels = \<lparr>allowed_ids = [], blocked_ids = []\<rparr>\<rparr>\<rparr>"]
    empty_allow_sets
      [of "\<lparr>author_id = 2, author_role_ids = [], is_dm = True, channel_id = 7,
        channel_parent_id = None, channel_category_id = None\<rparr>"
          "\<lparr>allow_dms_opt = None,
        permissions = \<lparr>perm_users = \<lparr>allowed_ids = [], blocked_ids = []\<rparr>, admin_ids = [],
                       perm_roles = \<lparr>allowed_ids = [9], blocked_ids = []\<rparr>,
                       perm_channels = \<lparr>allowed_ids = [], blocked_ids = []\<rparr>\<rparr>\<rparr>"]
  by (simp add: allowed_user_ids_def allowed_role_ids_def allowed_channel_ids_def
      user_is_admin_def role_ids_def allow_dms_def)

section \<open>Theorems: system prompt composer\<close>

text \<open>
  C9. The claim says that \<open>build_system_prompt\<close> is total and renders one line per described
  participant for the direct-message form of the preference record as well. The code does
  not: with the direct-message form (no \<open>users\<close> dictionary, a non-empty \<open>user\<close> object) and
  at least one participant, line 254 reads the local variable \<open>user\<close>, which only line 251
  (the guild branch) assigns, and the call raises \<open>UnboundLocalError\<close> whatever the base
  prompt, the clock and the guild name are.
\<close>

theorem build_system_prompt_dm_raises:
  assumes "sd_users sd = None" and "truthy_dict (sd_user sd)" and "ids \<noteq> []"
  shows "build_system_prompt now base_prompt sd server_name ids
           = Inl UnboundLocalError"
  using assms
  by (cases ids) (simp_all add: build_system_prompt_def truthy_dict_def Let_def)

theorem build_system_prompt_dm_raises_witness:
  "build_system_prompt \<lparr>now_date = ''November 04 2026'', now_time = ''10:00:00 UTC+0000''\<rparr>
     ''You are a helpful assistant. Today is {date}.''
     \<lparr>sd_model = Some ''gemini-2.5-flash'', sd_system_prompt = None, sd_users = None,
      sd_user = Some [(''display_name'', ''Al''), (''description'', ''likes cats''),
                      (''first_seen'', ''2026-11-03T09:00:00''),
                      (''last_updated'', ''2026-11-03T09:00:00'')]\<rparr>
     None [1]
   = Inl UnboundLocalError"
  using build_system_prompt_dm_raises
    [of "\<lparr>sd_model = Some ''gemini-2.5-flash'', sd_system_prompt = None, sd_users = None,
      sd_user = Some [(''display_name'', ''Al''), (''description'', ''likes cats''),
                      (''first_seen'', ''2026-11-03T09:00:00''),
                      (''last_updated'', ''2026-11-03T09:00:00'')]\<rparr>" "[1]"]
  by (simp add: truthy_dict_def)

text \<open>
  For the guild form of the record (no \<open>user\<close> object) the function returns: it is total
  there as soon as every stored participant with a description also has a display name, and
  it renders the line of the claim for each described participant.
\<close>

lemma users_info_loop_guild:
  assumes "\<not> truthy_dict (sd_user sd)"
    and "\<forall>u \<in> set ids. \<forall>d. sd_users sd \<noteq> None \<longrightarrow> map_of (the (sd_users sd)) (str_int u) = Some d
           \<longrightarrow> truthy_str (map_of d ''description'') \<longrightarrow> map_of d ''display_name'' \<noteq> None"
  shows "\<exists>lines. users_info_loop sd ids user_var users_info = Inr (users_info @ lines)"
  using assms(2)
proof (induction ids arbitrary: user_var users_info)
  case Nil
  then show ?case by simp
next
  case (Cons u ids)
  have rest: "\<forall>u \<in> set ids. \<forall>d. sd_users sd \<noteq> None \<longrightarrow> map_of (the (sd_users sd)) (str_int u) = Some d
           \<longrightarrow> truthy_str (map_of d ''description'') \<longrightarrow> map_of d ''display_name'' \<noteq> None"
    using Cons.prems by simp
  note IH = Cons.IH [OF rest]
  show ?case
  proof (cases "truthy_dict (sd_users sd) \<and> str_int u \<in> fst ` set (the (sd_users sd))")
    case False
    then have "users_info_loop sd (u # ids) user_var users_info
                 = users_info_loop sd ids user_var users_info"
      using assms(1) by (auto simp: Let_def)
    then show ?thesis using IH by simp
  next
    case True
    then obtain d where d: "map_of (the (sd_users sd)) (str_int u) = Some d"
      by (metis domD dom_map_of_conv_image_fst)
    have some: "sd_users sd \<noteq> None"
      using True by (auto simp: truthy_dict_def split: option.splits)
    show ?thesis
    proof (cases "truthy_str (map_of d ''description'')")
      case False
      then have "users_info_loop sd (u # ids) user_var users_info
                   = users_info_loop sd ids (Some d) users_info"
        using True d by (simp add: Let_def)
      then show ?thesis using IH by simp
    next
      case desc: True
      then obtain dn where dn: "map_of d ''display_name'' = Some dn"
        using Cons.prems d some by auto
      obtain ds where ds: "map_of d ''description'' = Some ds"
        using desc by (auto simp: truthy_str_def split: option.splits)
      have "users_info_loop sd (u # ids) user_var users_info
              = users_info_loop sd ids (Some d)
                  (users_info @ [''- <@'' @ str_int u @ ''> (Display: '' @ dn @ ''): '' @ ds])"
        using True d desc dn ds by (simp add: Let_def getitem_def)
      then show ?thesis
        using IH [of "Some d" "users_info @ [''- <@'' @ str_int u @ ''> (Display: '' @ dn @ ''): '' @ ds]"]
        by auto
    qed
  qed
qed

lemma build_system_prompt_guild_total:
  assumes "\<not> truthy_dict (sd_user sd)"
    and "\<forall>u \<in> set ids. \<forall>d. sd_users sd \<noteq> None \<longrightarrow> map_of (the (sd_users sd)) (str_int u) = Some d
           \<longrightarrow> truthy_str (map_of d ''description'') \<longrightarrow> map_of d ''display_name'' \<noteq> None"
  shows "\<exists>prompt. build_system_prompt now base_prompt sd server_name ids = Inr prompt"
proof -
  obtain lines where "users_info_loop sd ids None [] = Inr lines"
    using users_info_loop_guild [OF assms, of None "[]"] by auto
  then show ?thesis
    by (simp add: build_system_prompt_def Let_def)
qed

lemma build_system_prompt_guild_example:
  "build_system_prompt \<lparr>now_date = ''November 04 2026'', now_time = ''10:00:00 UTC+0000''\<rparr>
     ''  Today is {date}. ''
     \<lparr>sd_model = None, sd_system_prompt = None,
      sd_users = Some [(''12'', [(''display_name'', ''Al''), (''description'', ''likes cats'')]),
                       (''3'', [(''display_name'', ''Bo''), (''description'', '''')])],
      sd_user = None\<rparr>
     (Some ''Srv'') [12, 3, 4]
   = Inr (''Today is November 04 2026.'' @ NL @ NL @ ''Current server: Srv'' @ NL @ NL
          @ ''Known users in this conversation:'' @ NL
          @ ''- <@12> (Display: Al): likes cats'' @ NL @ NL
          @ ''When addressing users, use their display names naturally in conversation.'')"
  by code_simp

section \<open>Lemmas: the conversation walk\<close>

lemma length_download_all: "length (download_all env urls) \<le> length urls"
  unfolding download_all_def List.map_filter_def
  by (simp add: le_trans [OF length_filter_le])

lemma length_message_images: "length (message_images env lims m txt) \<le> max_images lims"
proof -
  let ?a = "download_all env (map url (take (max_images lims) (good_attachments m)))"
  let ?b = "download_all env (take (max_images lims - length ?a) (extract_image_urls txt (max_urls lims)))"
  have a: "length ?a \<le> max_images lims"
    using length_download_all [of env "map url (take (max_images lims) (good_attachments m))"]
    by simp
  have b: "length ?b \<le> max_images lims - length ?a"
    using length_download_all
      [of env "take (max_images lims - length ?a) (extract_image_urls txt (max_urls lims))"]
    by simp
  show ?thesis
    unfolding message_images_def Let_def using a b by auto
qed

lemma populate_fields:
  "node_text (fst (populate env lims dm m n)) = Some (message_text env m)"
  "node_images (fst (populate env lims dm m n)) = message_images env lims m (message_text env m)"
  "has_bad_attachments (fst (populate env lims dm m n))
     = (length (good_attachments m) < length (attachments m))"
  "lock_held (fst (populate env lims dm m n)) = lock_held n"
  by (simp_all add: populate_def Let_def split: sum.splits option.splits)

lemma good_attachments_less:
  "length (good_attachments m) < length (attachments m)
     \<longleftrightarrow> (\<exists>a \<in> set (attachments m). \<not> is_image_attachment a)"
  unfolding good_attachments_def
  by (metis filter_id_conv length_filter_le length_filter_less linorder_not_less)

lemma visit_images:
  assumes "length (node_images n) \<le> max_images lims"
  shows "length (node_images (fst (visit env lims dm m n))) \<le> max_images lims"
  using assms by (simp add: visit_def populate_fields length_message_images)

lemma emit_fields:
  "iterations (snd (emit lims n st)) = iterations st"
  "msg_nodes (snd (emit lims n st)) = msg_nodes st"
  "messages (snd (emit lims n st)) =
     (case node_text n of
        None \<Rightarrow> messages st
      | Some txt \<Rightarrow>
          if build_parts lims n txt \<noteq> []
          then messages st @ [\<lparr>turn_role = node_role n, parts = build_parts lims n txt\<rparr>]
          else messages st)"
  "user_warnings (snd (emit lims n st)) =
     (case node_text n of
        None \<Rightarrow> user_warnings st
      | Some txt \<Rightarrow> add_warnings lims n txt (messages (snd (emit lims n st))) (user_warnings st))"
  "curr_msg (snd (emit lims n st)) =
     (case node_text n of None \<Rightarrow> curr_msg st | Some txt \<Rightarrow> parent_msg n)"
  by (simp_all add: emit_def Let_def split: option.splits)

lemma build_parts_images:
  "length (filter is_image_part (build_parts lims n txt)) \<le> max_images lims"
  by (simp add: build_parts_def)

lemma emit_messages:
  "messages (snd (emit lims n st)) = messages st \<or>
     (\<exists>t. messages (snd (emit lims n st)) = messages st @ [t]
          \<and> length (filter is_image_part (parts t)) \<le> max_images lims)"
  by (cases "node_text n") (simp_all add: emit_fields build_parts_images)

lemma add_warnings_images:
  "length (node_images n) \<le> max_images lims \<Longrightarrow>
     WarnMaxImages k \<in> add_warnings lims n txt msgs ws \<longleftrightarrow> WarnMaxImages k \<in> ws"
  by (simp add: add_warnings_def Let_def)

lemma add_warnings_mono: "ws \<subseteq> add_warnings lims n txt msgs ws"
  by (auto simp: add_warnings_def Let_def)

lemma add_warnings_text:
  "max_text lims < length txt \<Longrightarrow> WarnMaxText (max_text lims) \<in> add_warnings lims n txt msgs ws"
  by (simp add: add_warnings_def Let_def)

lemma emit_no_image_warning:
  "length (node_images n) \<le> max_images lims \<Longrightarrow> WarnMaxImages k \<notin> user_warnings st \<Longrightarrow>
     WarnMaxImages k \<notin> user_warnings (snd (emit lims n st))"
  by (cases "node_text n") (simp_all add: emit_fields(4) add_warnings_images)

lemma emit_warnings_mono: "user_warnings st \<subseteq> user_warnings (snd (emit lims n st))"
  by (cases "node_text n") (simp_all add: emit_fields(4) add_warnings_mono)


lemma loop_body_cases [consumes 0, case_names blocked raised emitted]:
  fixes env lims dm m st
  defines "node0 \<equiv> (case msg_nodes st (msg_id m) of None \<Rightarrow> MsgNode | Some n \<Rightarrow> n)"
  obtains
    "lock_held node0"
    "loop_body env lims dm m st =
       (Some Blocked, st\<lparr>msg_nodes := (msg_nodes st)(msg_id m \<mapsto> node0),
                          iterations := Suc (iterations st)\<rparr>)"
  | n e where
    "\<not> lock_held node0" "visit env lims dm m node0 = (n, Some e)"
    "loop_body env lims dm m st =
       (Some (Raised e), st\<lparr>iterations := Suc (iterations st),
                             msg_nodes := (msg_nodes st)(msg_id m \<mapsto> n)\<rparr>)"
  | n where
    "\<not> lock_held node0" "visit env lims dm m node0 = (n, None)"
    "loop_body env lims dm m st =
       emit lims n (st\<lparr>iterations := Suc (iterations st),
                       msg_nodes := (msg_nodes st)(msg_id m \<mapsto> n)\<rparr>)"
proof (cases "lock_held node0")
  case True
  then show ?thesis
    using that(1) by (simp add: loop_body_def Let_def node0_def)
next
  case False
  obtain n err where v: "visit env lims dm m node0 = (n, err)"
    by (cases "visit env lims dm m node0")
  show ?thesis
  proof (cases err)
    case None
    with False v show ?thesis
      using that(3) [of n] by (simp add: loop_body_def Let_def node0_def)
  next
    case (Some e)
    with False v show ?thesis
      using that(2) [of n e] by (simp add: loop_body_def Let_def node0_def)
  qed
qed

lemma node0_images:
  "cache_ok lims (msg_nodes st) \<Longrightarrow>
   length (node_images (case msg_nodes st k of None \<Rightarrow> MsgNode | Some n \<Rightarrow> n)) \<le> max_images lims"
  by (simp add: cache_ok_def MsgNode_def split: option.splits)

lemma cache_ok_upd:
  "cache_ok lims c \<Longrightarrow> length (node_images n) \<le> max_images lims \<Longrightarrow> cache_ok lims (c(k \<mapsto> n))"
  by (simp add: cache_ok_def)

lemma loop_body_iterations:
  "iterations (snd (loop_body env lims dm m st)) = Suc (iterations st)"
  by (cases env lims dm m st rule: loop_body_cases) (simp_all add: emit_fields)

lemma loop_body_messages:
  "messages (snd (loop_body env lims dm m st)) = messages st \<or>
     (\<exists>t. messages (snd (loop_body env lims dm m st)) = messages st @ [t]
          \<and> length (filter is_image_part (parts t)) \<le> max_images lims)"
proof (cases env lims dm m st rule: loop_body_cases)
  case (emitted n)
  show ?thesis
    using emit_messages [of lims n "st\<lparr>iterations := Suc (iterations st),
                       msg_nodes := (msg_nodes st)(msg_id m \<mapsto> n)\<rparr>"]
    by (simp add: emitted(3))
qed simp_all

lemma loop_body_cache_ok:
  assumes "cache_ok lims (msg_nodes st)"
  shows "cache_ok lims (msg_nodes (snd (loop_body env lims dm m st)))"
proof (cases env lims dm m st rule: loop_body_cases)
  case blocked
  then show ?thesis
    using assms by (simp add: cache_ok_upd node0_images)
next
  case (raised n e)
  have "length (node_images n) \<le> max_images lims"
    using visit_images [of _ lims env dm m, OF node0_images [OF assms, of "msg_id m"]] raised(2)
    by simp
  then show ?thesis
    using assms raised(3) by (simp add: cache_ok_upd)
next
  case (emitted n)
  have "length (node_images n) \<le> max_images lims"
    using visit_images [of _ lims env dm m, OF node0_images [OF assms, of "msg_id m"]] emitted(2)
    by simp
  then show ?thesis
    using assms emitted(3) by (simp add: cache_ok_upd emit_fields)
qed

lemma loop_body_no_image_warning:
  assumes "cache_ok lims (msg_nodes st)" and "WarnMaxImages k \<notin> user_warnings st"
  shows "WarnMaxImages k \<notin> user_warnings (snd (loop_body env lims dm m st))"
proof (cases env lims dm m st rule: loop_body_cases)
  case (emitted n)
  have "length (node_images n) \<le> max_images lims"
    using visit_images [of _ lims env dm m, OF node0_images [OF assms(1), of "msg_id m"]] emitted(2)
    by simp
  then show ?thesis
    using assms(2) emitted(3) by (simp add: emit_no_image_warning)
qed (use assms in simp_all)

lemma loop_body_warnings_mono:
  "user_warnings st \<subseteq> user_warnings (snd (loop_body env lims dm m st))"
proof (cases env lims dm m st rule: loop_body_cases)
  case (emitted n)
  show ?thesis
    using emit_warnings_mono [of "st\<lparr>iterations := Suc (iterations st),
                       msg_nodes := (msg_nodes st)(msg_id m \<mapsto> n)\<rparr>" lims n]
    by (simp add: emitted(3))
qed simp_all

lemma walk_Suc_cases [consumes 0, case_names no_msg full stopped continued]:
  fixes fuel env lims dm st
  obtains
    "curr_msg st = None" "walk (Suc fuel) env lims dm st = (Finished, st)"
  | m where "curr_msg st = Some m" "\<not> length (messages st) < max_messages lims"
      "walk (Suc fuel) env lims dm st = (Finished, st)"
  | m status where "curr_msg st = Some m" "length (messages st) < max_messages lims"
      "fst (loop_body env lims dm m st) = Some status"
      "walk (Suc fuel) env lims dm st = (status, snd (loop_body env lims dm m st))"
  | m where "curr_msg st = Some m" "length (messages st) < max_messages lims"
      "fst (loop_body env lims dm m st) = None"
      "walk (Suc fuel) env lims dm st = walk fuel env lims dm (snd (loop_body env lims dm m st))"
proof (cases "curr_msg st")
  case None
  then show ?thesis using that(1) by simp
next
  case (Some m)
  show ?thesis
  proof (cases "length (messages st) < max_messages lims")
    case False
    with Some show ?thesis using that(2) [of m] by simp
  next
    case True
    obtain r st' where lb: "loop_body env lims dm m st = (r, st')"
      by (cases "loop_body env lims dm m st")
    show ?thesis
    proof (cases r)
      case None
      with Some True lb show ?thesis using that(4) [of m] by simp
    next
      case (Some status)
      with \<open>curr_msg st = Some m\<close> True lb show ?thesis using that(3) [of m status] by simp
    qed
  qed
qed

lemma walk_0:
  "snd (walk 0 env lims dm st) = st"
  "fst (walk 0 env lims dm st) =
     (if curr_msg st \<noteq> None \<and> length (messages st) < max_messages lims then OutOfFuel else Finished)"
  by (simp_all split: option.splits)

declare walk.simps [simp del]

lemma walk_invariant:
  assumes "P st0"
    and step: "\<And>m st. P st \<Longrightarrow> curr_msg st = Some m \<Longrightarrow> length (messages st) < max_messages lims
                 \<Longrightarrow> P (snd (loop_body env lims dm m st))"
  shows "P (snd (walk fuel env lims dm st0))"
  using assms(1)
proof (induction fuel arbitrary: st0)
  case 0
  then show ?case by (simp add: walk_0)
next
  case (Suc fuel)
  show ?case
  proof (cases fuel env lims dm st0 rule: walk_Suc_cases)
    case (stopped m status)
    then show ?thesis using step [OF Suc.prems] by simp
  next
    case (continued m)
    then show ?thesis using Suc.IH [OF step [OF Suc.prems]] by simp
  qed (use Suc.prems in simp_all)
qed

lemma walk_iterations:
  "iterations st0 \<le> iterations (snd (walk fuel env lims dm st0))
   \<and> iterations (snd (walk fuel env lims dm st0)) \<le> iterations st0 + fuel
   \<and> (fst (walk fuel env lims dm st0) = OutOfFuel
        \<longrightarrow> iterations (snd (walk fuel env lims dm st0)) = iterations st0 + fuel)"
proof (induction fuel arbitrary: st0)
  case 0
  then show ?case by (simp add: walk_0)
next
  case (Suc fuel)
  show ?case
  proof (cases fuel env lims dm st0 rule: walk_Suc_cases)
    case (stopped m status)
    have "status \<noteq> OutOfFuel"
      using stopped(3) by (cases env lims dm m st0 rule: loop_body_cases) (auto simp: emit_def Let_def split: option.splits)
    then show ?thesis using stopped by (simp add: loop_body_iterations)
  next
    case (continued m)
    then show ?thesis
      using Suc.IH [of "snd (loop_body env lims dm m st0)"] by (simp add: loop_body_iterations)
  qed simp_all
qed

lemma walk_messages_growth:
  "length (messages st0) \<le> length (messages (snd (walk fuel env lims dm st0)))
   \<and> length (messages (snd (walk fuel env lims dm st0))) + iterations st0
        \<le> length (messages st0) + iterations (snd (walk fuel env lims dm st0))"
proof (induction fuel arbitrary: st0)
  case 0
  then show ?case by (simp add: walk_0)
next
  case (Suc fuel)
  show ?case
  proof (cases fuel env lims dm st0 rule: walk_Suc_cases)
    case (stopped m status)
    then show ?thesis
      using loop_body_messages [of env lims dm m st0] by (auto simp: loop_body_iterations)
  next
    case (continued m)
    then show ?thesis
      using Suc.IH [of "snd (loop_body env lims dm m st0)"] loop_body_messages [of env lims dm m st0]
      by (auto simp: loop_body_iterations)
  qed simp_all
qed

lemma walk_messages_bound:
  assumes "length (messages st0) \<le> max_messages lims"
  shows "length (messages (snd (walk fuel env lims dm st0))) \<le> max_messages lims"
proof (rule walk_invariant [where P = "\<lambda>st. length (messages st) \<le> max_messages lims"])
  show "length (messages st0) \<le> max_messages lims" by (rule assms)
next
  fix m and st :: walk_state
  assume "length (messages st) < max_messages lims"
  then show "length (messages (snd (loop_body env lims dm m st))) \<le> max_messages lims"
    using loop_body_messages [of env lims dm m st] by auto
qed

lemma walk_out_of_fuel:
  "fst (walk fuel env lims dm st0) = OutOfFuel \<Longrightarrow>
     length (messages (snd (walk fuel env lims dm st0))) < max_messages lims
     \<and> curr_msg (snd (walk fuel env lims dm st0)) \<noteq> None"
proof (induction fuel arbitrary: st0)
  case 0
  then show ?case by (simp add: walk_0 split: if_splits)
next
  case (Suc fuel)
  show ?case
  proof (cases fuel env lims dm st0 rule: walk_Suc_cases)
    case (stopped m status)
    have "status \<noteq> OutOfFuel"
      using stopped(3) by (cases env lims dm m st0 rule: loop_body_cases) (auto simp: emit_def Let_def split: option.splits)
    then show ?thesis using stopped Suc.prems by simp
  next
    case (continued m)
    then show ?thesis
      using Suc.IH [of "snd (loop_body env lims dm m st0)"] Suc.prems by simp
  qed (use Suc.prems in simp_all)
qed

text \<open>
  The walk on a parent-older lineage: an iteration keeps the lineage and the free locks, never
  blocks, and moves to an older message of the lineage; so the ids bound the iterations.
\<close>

lemma emit_fst:
  "fst (emit lims n st) = (case node_text n of None \<Rightarrow> Some (Raised TypeError) | Some t \<Rightarrow> None)"
  by (simp add: emit_def Let_def split: option.splits)

lemma populate_parent:
  "parent_msg (fst (populate env lims dm m n))
     = (case find_parent env dm m of Inr (Some p) \<Rightarrow> Some p | _ \<Rightarrow> parent_msg n)"
  by (simp add: populate_def Let_def split: sum.splits option.splits)

lemma visit_parent:
  "parent_msg (fst (visit env lims dm m n)) = Some p \<Longrightarrow>
     find_parent env dm m = Inr (Some p) \<or> parent_msg n = Some p"
  by (auto simp: visit_def populate_parent split: if_splits sum.splits option.splits)

lemma visit_lock: "lock_held (fst (visit env lims dm m n)) = lock_held n"
  by (simp add: visit_def populate_fields)

lemma older_lineage_nonneg: "older_lineage S env dm cache \<Longrightarrow> m \<in> S \<Longrightarrow> 0 \<le> msg_id m"
  unfolding older_lineage_def by blast

lemma older_lineage_find_parent:
  "older_lineage S env dm cache \<Longrightarrow> m \<in> S \<Longrightarrow> find_parent env dm m = Inr (Some p)
     \<Longrightarrow> p \<in> S \<and> msg_id p < msg_id m"
  unfolding older_lineage_def by blast

lemma older_lineage_cached:
  "older_lineage S env dm cache \<Longrightarrow> m \<in> S \<Longrightarrow> cache (msg_id m) = Some n
     \<Longrightarrow> parent_msg n = Some p \<Longrightarrow> p \<in> S \<and> msg_id p < msg_id m"
  unfolding older_lineage_def by blast

lemma older_lineage_upd:
  assumes "older_lineage S env dm cache" and "m \<in> S"
    and "\<forall>p. parent_msg n = Some p \<longrightarrow> p \<in> S \<and> msg_id p < msg_id m"
  shows "older_lineage S env dm (cache(msg_id m \<mapsto> n))"
  unfolding older_lineage_def
proof (intro ballI conjI allI impI)
  fix k
  assume k: "k \<in> S"
  show "0 \<le> msg_id k"
    by (rule older_lineage_nonneg [OF assms(1) k])
  show "p \<in> S" "msg_id p < msg_id k" if "find_parent env dm k = Inr (Some p)" for p
    using older_lineage_find_parent [OF assms(1) k that] by simp_all
  show "p \<in> S" "msg_id p < msg_id k"
    if c: "(cache(msg_id m \<mapsto> n)) (msg_id k) = Some n'" and p: "parent_msg n' = Some p" for n' p
  proof -
    have "p \<in> S \<and> msg_id p < msg_id k"
    proof (cases "msg_id k = msg_id m")
      case True
      then have "n' = n" using c by simp
      then show ?thesis using assms(3) p True by simp
    next
      case False
      then have "cache (msg_id k) = Some n'" using c by simp
      then show ?thesis by (rule older_lineage_cached [OF assms(1) k _ p])
    qed
    then show "p \<in> S" "msg_id p < msg_id k" by simp_all
  qed
qed

lemma locks_free_upd:
  "locks_free cache \<Longrightarrow> \<not> lock_held n \<Longrightarrow> locks_free (cache(k \<mapsto> n))"
  by (simp add: locks_free_def)

lemma node0_parent:
  assumes "older_lineage S env dm cache" and "m \<in> S"
    and "parent_msg (case cache (msg_id m) of None \<Rightarrow> MsgNode | Some n \<Rightarrow> n) = Some p"
  shows "p \<in> S \<and> msg_id p < msg_id m"
proof (cases "cache (msg_id m)")
  case None
  then show ?thesis using assms(3) by (simp add: MsgNode_def)
next
  case (Some n)
  then show ?thesis using assms(3) older_lineage_cached [OF assms(1,2) Some] by simp
qed

lemma node0_lock:
  "locks_free cache \<Longrightarrow> \<not> lock_held (case cache k of None \<Rightarrow> MsgNode | Some n \<Rightarrow> n)"
  by (auto simp: locks_free_def MsgNode_def split: option.splits)

lemma loop_body_older:
  assumes ol: "older_lineage S env dm (msg_nodes st)" and lf: "locks_free (msg_nodes st)"
    and m: "m \<in> S"
  shows "older_lineage S env dm (msg_nodes (snd (loop_body env lims dm m st)))"
    and "locks_free (msg_nodes (snd (loop_body env lims dm m st)))"
    and "fst (loop_body env lims dm m st) \<noteq> Some Blocked"
    and "fst (loop_body env lims dm m st) = None \<Longrightarrow>
           curr_msg (snd (loop_body env lims dm m st)) = Some p \<Longrightarrow> p \<in> S \<and> msg_id p < msg_id m"
proof -
  let ?node0 = "case msg_nodes st (msg_id m) of None \<Rightarrow> MsgNode | Some n \<Rightarrow> n"
  have free0: "\<not> lock_held ?node0"
    by (rule node0_lock [OF lf])
  have par: "\<And>n q. fst (visit env lims dm m ?node0) = n \<Longrightarrow> parent_msg n = Some q
               \<Longrightarrow> q \<in> S \<and> msg_id q < msg_id m"
  proof -
    fix n q
    assume "fst (visit env lims dm m ?node0) = n" and "parent_msg n = Some q"
    then have "find_parent env dm m = Inr (Some q) \<or> parent_msg ?node0 = Some q"
      using visit_parent [of env lims dm m ?node0 q] by simp
    then show "q \<in> S \<and> msg_id q < msg_id m"
    proof
      assume "find_parent env dm m = Inr (Some q)"
      then show ?thesis by (rule older_lineage_find_parent [OF ol m])
    next
      assume "parent_msg ?node0 = Some q"
      then show ?thesis by (rule node0_parent [OF ol m])
    qed
  qed
  have free: "\<And>n. fst (visit env lims dm m ?node0) = n \<Longrightarrow> \<not> lock_held n"
    using free0 visit_lock [of env lims dm m ?node0] by simp
  show "older_lineage S env dm (msg_nodes (snd (loop_body env lims dm m st)))"
  proof (cases env lims dm m st rule: loop_body_cases)
    case blocked
    then show ?thesis using free0 by simp
  next
    case (raised n e)
    then show ?thesis
      using older_lineage_upd [OF ol m, of n] par [of n] by simp
  next
    case (emitted n)
    then show ?thesis
      using older_lineage_upd [OF ol m, of n] par [of n] by (simp add: emit_fields)
  qed
  show "locks_free (msg_nodes (snd (loop_body env lims dm m st)))"
  proof (cases env lims dm m st rule: loop_body_cases)
    case blocked
    then show ?thesis using free0 by simp
  next
    case (raised n e)
    then show ?thesis
      using locks_free_upd [OF lf, of n "msg_id m"] free [of n] by simp
  next
    case (emitted n)
    then show ?thesis
      using locks_free_upd [OF lf, of n "msg_id m"] free [of n] by (simp add: emit_fields)
  qed
  show "fst (loop_body env lims dm m st) \<noteq> Some Blocked"
  proof (cases env lims dm m st rule: loop_body_cases)
    case blocked
    then show ?thesis using free0 by simp
  next
    case (raised n e)
    then show ?thesis by simp
  next
    case (emitted n)
    then show ?thesis by (simp add: emit_fst split: option.splits)
  qed
  show "p \<in> S \<and> msg_id p < msg_id m"
    if "fst (loop_body env lims dm m st) = None"
      and "curr_msg (snd (loop_body env lims dm m st)) = Some p"
  proof (cases env lims dm m st rule: loop_body_cases)
    case blocked
    then show ?thesis using that(1) by simp
  next
    case (raised n e)
    then show ?thesis using that(1) by simp
  next
    case (emitted n)
    have "node_text n \<noteq> None"
      using that(1) emitted(3) by (cases "node_text n") (simp_all add: emit_fst)
    then have "parent_msg n = Some p"
      using that(2) emitted(3) by (auto simp: emit_fields(5))
    then show ?thesis
      using par [of n] emitted(2) by simp
  qed
qed

lemma loop_body_status:
  "fst (loop_body env lims dm m st) = Some status \<Longrightarrow> status = Blocked \<or> (\<exists>e. status = Raised e)"
  by (cases env lims dm m st rule: loop_body_cases) (auto simp: emit_fst split: option.splits)

lemma walk_older_terminates:
  assumes "older_lineage S env dm (msg_nodes st)" and "locks_free (msg_nodes st)"
    and "\<forall>m. curr_msg st = Some m \<longrightarrow> m \<in> S \<and> nat (msg_id m) < fuel"
  shows "fst (walk fuel env lims dm st) = Finished \<or> (\<exists>e. fst (walk fuel env lims dm st) = Raised e)"
  using assms
proof (induction fuel arbitrary: st)
  case 0
  then have "curr_msg st = None" by (cases "curr_msg st") auto
  then show ?case by (simp add: walk_0)
next
  case (Suc fuel)
  show ?case
  proof (cases fuel env lims dm st rule: walk_Suc_cases)
    case no_msg
    then show ?thesis by simp
  next
    case (full m)
    then show ?thesis by simp
  next
    case (stopped m status)
    have m: "m \<in> S" using Suc.prems(3) stopped(1) by simp
    have "status \<noteq> Blocked"
      using loop_body_older(3) [OF Suc.prems(1,2) m, of lims] stopped(3) by auto
    then show ?thesis
      using loop_body_status [OF stopped(3)] stopped(4) by auto
  next
    case (continued m)
    have m: "m \<in> S" and lt: "nat (msg_id m) < Suc fuel"
      using Suc.prems(3) continued(1) by simp_all
    have pos: "0 \<le> msg_id m"
      by (rule older_lineage_nonneg [OF Suc.prems(1) m])
    let ?st = "snd (loop_body env lims dm m st)"
    have next_ok: "\<forall>p. curr_msg ?st = Some p \<longrightarrow> p \<in> S \<and> nat (msg_id p) < fuel"
    proof (intro allI impI)
      fix p
      assume p: "curr_msg ?st = Some p"
      have pp: "p \<in> S \<and> msg_id p < msg_id m"
        using loop_body_older(4) [OF Suc.prems(1,2) m continued(3) p] .
      then have "0 \<le> msg_id p"
        using older_lineage_nonneg [OF Suc.prems(1)] by blast
      then show "p \<in> S \<and> nat (msg_id p) < fuel"
        using pp lt pos by linarith
    qed
    show ?thesis
      unfolding continued(4)
      by (rule Suc.IH [OF loop_body_older(1,2) [OF Suc.prems(1,2) m] next_ok])
  qed
qed

section \<open>Theorems: the conversation walk\<close>

lemma walk_init_fields:
  "messages (walk_init cache m) = []" "iterations (walk_init cache m) = 0"
  "user_warnings (walk_init cache m) = {}" "msg_nodes (walk_init cache m) = cache"
  "curr_msg (walk_init cache m) = Some m"
  by (simp_all add: walk_init_def)

text \<open>
  C3, amended. The loop condition counts the turns collected, not the iterations, and a
  message without text and without image yields no turn.
  \<^item> On every parent-older lineage (\<open>older_lineage\<close>: each parent that the walk resolves is an
    older message, which is what the platform delivers), with no lock held by another
    handler, the walk terminates: granted more iterations than the trigger's id, it ends
    because the loop condition fails or because an exception leaves the handler.
  \<^item> For every trigger message, cache and platform and every number \<open>fuel\<close> of iterations
    granted, the walk collects at most \<open>max_messages\<close> turns, never more turns than
    iterations; if the walk is still running after \<open>fuel\<close> iterations, fewer than
    \<open>max_messages\<close> of them produced a turn; hence a walk in which every iteration produces
    a turn stops within \<open>max_messages\<close> iterations.
  The number of iterations itself is not bounded by \<open>max_messages\<close>.
\<close>

theorem walk_terminates_turns_bounded:
  "(older_lineage S env dm cache \<and> locks_free cache \<and> trigger \<in> S
      \<and> nat (msg_id trigger) < fuel
      \<longrightarrow> fst (walk fuel env lims dm (walk_init cache trigger)) = Finished
          \<or> (\<exists>e. fst (walk fuel env lims dm (walk_init cache trigger)) = Raised e))
   \<and> length (messages (snd (walk fuel env lims dm (walk_init cache trigger)))) \<le> max_messages lims
   \<and> length (messages (snd (walk fuel env lims dm (walk_init cache trigger))))
        \<le> iterations (snd (walk fuel env lims dm (walk_init cache trigger)))
   \<and> iterations (snd (walk fuel env lims dm (walk_init cache trigger))) \<le> fuel
   \<and> (fst (walk fuel env lims dm (walk_init cache trigger)) = OutOfFuel
        \<longrightarrow> iterations (snd (walk fuel env lims dm (walk_init cache trigger))) = fuel
            \<and> length (messages (snd (walk fuel env lims dm (walk_init cache trigger))))
                 < max_messages lims)
   \<and> (max_messages lims \<le> fuel
        \<and> iterations (snd (walk fuel env lims dm (walk_init cache trigger)))
            = length (messages (snd (walk fuel env lims dm (walk_init cache trigger))))
        \<longrightarrow> fst (walk fuel env lims dm (walk_init cache trigger)) \<noteq> OutOfFuel)"
proof -
  let ?r = "walk fuel env lims dm (walk_init cache trigger)"
  have t: "fst ?r = Finished \<or> (\<exists>e. fst ?r = Raised e)"
    if "older_lineage S env dm cache" "locks_free cache" "trigger \<in> S"
      "nat (msg_id trigger) < fuel"
    by (rule walk_older_terminates [where S = S]) (simp_all add: walk_init_fields that)
  have a: "length (messages (snd ?r)) \<le> max_messages lims"
    by (rule walk_messages_bound) (simp add: walk_init_fields)
  have b: "length (messages (snd ?r)) \<le> iterations (snd ?r)"
    using walk_messages_growth [of "walk_init cache trigger" fuel env lims dm]
    by (simp add: walk_init_fields)
  have c: "iterations (snd ?r) \<le> fuel"
    and d: "fst ?r = OutOfFuel \<longrightarrow> iterations (snd ?r) = fuel"
    using walk_iterations [of "walk_init cache trigger" fuel env lims dm]
    by (simp_all add: walk_init_fields)
  have e: "fst ?r = OutOfFuel \<longrightarrow> length (messages (snd ?r)) < max_messages lims"
    using walk_out_of_fuel [of fuel env lims dm "walk_init cache trigger"] by simp
  from t a b c d e show ?thesis by auto
qed

theorem walk_terminates_turns_bounded_witness:
  "(fst (walk 14 ex_env_downloads ex_limits False (walk_init Map.empty ex_reply_chain)) = Finished
      \<or> (\<exists>e. fst (walk 14 ex_env_downloads ex_limits False (walk_init Map.empty ex_reply_chain))
            = Raised e))
   \<and> fst (walk 2 ex_env_downloads ex_limits False (walk_init Map.empty ex_text_chain)) \<noteq> OutOfFuel
   \<and> iterations (snd (walk 2 ex_env_downloads ex_limits False
         (walk_init Map.empty ex_reply_chain))) = 2
   \<and> length (messages (snd (walk 2 ex_env_downloads ex_limits False
         (walk_init Map.empty ex_reply_chain)))) < max_messages ex_limits"
proof -
  have p11: "find_parent ex_env_downloads False ex_reply_11 = Inr None"
    by code_simp
  have p12: "find_parent ex_env_downloads False ex_reply_12 = Inr (Some ex_reply_11)"
    by code_simp
  have p13: "find_parent ex_env_downloads False ex_reply_chain = Inr (Some ex_reply_12)"
    by code_simp
  have ids: "msg_id ex_reply_11 = 11" "msg_id ex_reply_12 = 12" "msg_id ex_reply_chain = 13"
    by (simp_all add: ex_reply_11_def ex_reply_12_def ex_reply_chain_def)
  have h0: "older_lineage ex_lineage ex_env_downloads False Map.empty
      \<and> locks_free Map.empty \<and> ex_reply_chain \<in> ex_lineage \<and> nat (msg_id ex_reply_chain) < 14"
    by (simp add: older_lineage_def locks_free_def ex_lineage_def p11 p12 p13 ids)
  have h1: "max_messages ex_limits \<le> 2"
    by (simp add: ex_limits_def)
  have h2: "iterations (snd (walk 2 ex_env_downloads ex_limits False (walk_init Map.empty ex_text_chain)))
     = length (messages (snd (walk 2 ex_env_downloads ex_limits False (walk_init Map.empty ex_text_chain))))"
    by code_simp
  have h3: "fst (walk 2 ex_env_downloads ex_limits False (walk_init Map.empty ex_reply_chain))
     = OutOfFuel"
    by code_simp
  show ?thesis
    using walk_terminates_turns_bounded
        [of ex_lineage ex_env_downloads False Map.empty ex_reply_chain 14 ex_limits]
      walk_terminates_turns_bounded
        [of ex_lineage ex_env_downloads False Map.empty ex_text_chain 2 ex_limits]
      walk_terminates_turns_bounded
        [of ex_lineage ex_env_downloads False Map.empty ex_reply_chain 2 ex_limits]
      h0 h1 h2 h3
    by blast
qed

text \<open>
  C3, as stated, fails: the number of iterations is not bounded by \<open>max_messages\<close>. In a guild
  channel a message that only mentions the bot, in reply to such a message, itself in reply
  to such a message, is walked in three iterations under \<open>max_messages = 2\<close>; none of the
  three yields a turn, and the walk ends at the message without parent.
\<close>

theorem reply_chain_walk_counterexample:
  "fst (walk 3 ex_env_downloads ex_limits False (walk_init Map.empty ex_reply_chain)) = Finished
   \<and> iterations (snd (walk 3 ex_env_downloads ex_limits False (walk_init Map.empty ex_reply_chain)))
       = 3
   \<and> messages (snd (walk 3 ex_env_downloads ex_limits False (walk_init Map.empty ex_reply_chain))) = []
   \<and> max_messages ex_limits = 2"
  by code_simp

text \<open>
  C4. The walk never adds the warning "Max N images per message": a node never holds more
  than \<open>max_images\<close> images, because lines 518 and 526 cut the downloads to \<open>max_images\<close>
  before line 582 compares. The claim promises the warning whenever a message's images
  exceed \<open>max_images\<close>; the witness is a message with two image attachments under
  \<open>max_images = 1\<close>: one image is dropped and the warning set stays without the warning.
\<close>

theorem walk_never_warns_max_images:
  assumes "cache_ok lims cache"
  shows "WarnMaxImages k \<notin> user_warnings (snd (walk fuel env lims dm (walk_init cache trigger)))"
proof -
  have "cache_ok lims (msg_nodes (snd (walk fuel env lims dm (walk_init cache trigger))))
        \<and> WarnMaxImages k \<notin> user_warnings (snd (walk fuel env lims dm (walk_init cache trigger)))"
  proof (rule walk_invariant
      [where P = "\<lambda>st. cache_ok lims (msg_nodes st) \<and> WarnMaxImages k \<notin> user_warnings st"])
    show "cache_ok lims (msg_nodes (walk_init cache trigger))
          \<and> WarnMaxImages k \<notin> user_warnings (walk_init cache trigger)"
      using assms by (simp add: walk_init_fields)
  next
    fix m and st :: walk_state
    assume "cache_ok lims (msg_nodes st) \<and> WarnMaxImages k \<notin> user_warnings st"
    then show "cache_ok lims (msg_nodes (snd (loop_body env lims dm m st)))
               \<and> WarnMaxImages k \<notin> user_warnings (snd (loop_body env lims dm m st))"
      by (simp add: loop_body_cache_ok loop_body_no_image_warning)
  qed
  then show ?thesis by simp
qed

theorem walk_never_warns_max_images_witness:
  "length (good_attachments ex_two_images) = 2
   \<and> max_images ex_limits = 1
   \<and> fst (walk 1 ex_env_downloads ex_limits False (walk_init Map.empty ex_two_images)) = Finished
   \<and> messages (snd (walk 1 ex_env_downloads ex_limits False (walk_init Map.empty ex_two_images)))
       = [\<lparr>turn_role = role_user,
           parts = [TextPart ''ann: look'',
                    ImagePart \<lparr>mime_type = ''image/png'', data = ''https://cdn.example/a.png''\<rparr>]\<rparr>]
   \<and> WarnMaxImages 1
       \<notin> user_warnings (snd (walk 1 ex_env_downloads ex_limits False (walk_init Map.empty ex_two_images)))"
proof -
  have ok: "cache_ok ex_limits Map.empty"
    by (simp add: cache_ok_def)
  have a: "length (good_attachments ex_two_images) = 2" by code_simp
  have b: "max_images ex_limits = 1" by (simp add: ex_limits_def)
  have c: "fst (walk 1 ex_env_downloads ex_limits False (walk_init Map.empty ex_two_images)) = Finished"
    by code_simp
  have d: "messages (snd (walk 1 ex_env_downloads ex_limits False (walk_init Map.empty ex_two_images)))
       = [\<lparr>turn_role = role_user,
           parts = [TextPart ''ann: look'',
                    ImagePart \<lparr>mime_type = ''image/png'', data = ''https://cdn.example/a.png''\<rparr>]\<rparr>]"
    by code_simp
  show ?thesis
    using walk_never_warns_max_images [OF ok, of 1 1 ex_env_downloads False ex_two_images] a b c d
    by simp
qed

lemma loop_body_first_visit:
  assumes "msg_nodes st (msg_id m) = None"
  shows "msg_nodes (snd (loop_body env lims dm m st)) (msg_id m)
           = Some (fst (populate env lims dm m MsgNode))"
proof -
  have v: "visit env lims dm m MsgNode = populate env lims dm m MsgNode"
    by (simp add: visit_def MsgNode_def)
  show ?thesis
  proof (cases env lims dm m st rule: loop_body_cases)
    case blocked
    then show ?thesis using assms by (simp add: MsgNode_def)
  next
    case (raised n e)
    then show ?thesis using assms v by simp
  next
    case (emitted n)
    then show ?thesis using assms v by (simp add: emit_fields)
  qed
qed

text \<open>
  C5, amended: when a message is processed for the first time, the flag
  \<open>has_bad_attachments\<close> of its node is true exactly when some attachment has no content type
  or one that does not start with \<open>image\<close>. An image attachment dropped because it is beyond
  the \<open>max_images\<close> cap does not set the flag.
\<close>

theorem has_bad_attachments_iff:
  assumes "msg_nodes st (msg_id m) = None"
  shows "\<exists>n. msg_nodes (snd (loop_body env lims dm m st)) (msg_id m) = Some n
             \<and> (has_bad_attachments n \<longleftrightarrow> (\<exists>a \<in> set (attachments m). \<not> is_image_attachment a))"
  using loop_body_first_visit [OF assms, of env lims dm]
  by (simp add: populate_fields good_attachments_less)

theorem has_bad_attachments_iff_witness:
  "\<exists>n. msg_nodes (snd (loop_body ex_env_downloads ex_limits False ex_two_images
                          (walk_init Map.empty ex_two_images))) 3 = Some n
       \<and> \<not> has_bad_attachments n"
proof -
  have a: "msg_nodes (walk_init Map.empty ex_two_images) (msg_id ex_two_images) = None"
    by (simp add: walk_init_def)
  have b: "msg_id ex_two_images = 3"
    by (simp add: ex_two_images_def)
  have c: "\<forall>a \<in> set (attachments ex_two_images). is_image_attachment a"
    by (simp add: ex_two_images_def is_image_attachment_def)
  show ?thesis
    using has_bad_attachments_iff [OF a, of ex_env_downloads ex_limits False] b c by auto
qed

text \<open>
  C5, as stated, fails: of two image attachments under \<open>max_images = 1\<close> one is dropped, and
  the flag stays false.
\<close>

theorem over_cap_attachment_counterexample:
  "length (attachments ex_two_images) = 2
   \<and> length (node_images (fst (populate ex_env_downloads ex_limits False ex_two_images MsgNode))) = 1
   \<and> \<not> has_bad_attachments (fst (populate ex_env_downloads ex_limits False ex_two_images MsgNode))"
  by code_simp

text \<open>
  The parts of C4 that hold: at most \<open>max_messages\<close> turns, at most \<open>max_images\<close> images in
  a turn, and the warning for a text longer than \<open>max_text\<close>, which later iterations keep.
\<close>

lemma walk_turns_bounded:
  "length (messages (snd (walk fuel env lims dm (walk_init cache trigger)))) \<le> max_messages lims"
  by (rule walk_messages_bound) (simp add: walk_init_fields)

lemma walk_turn_images_bounded:
  "\<forall>t \<in> set (messages (snd (walk fuel env lims dm (walk_init cache trigger)))).
     length (filter is_image_part (parts t)) \<le> max_images lims"
proof (rule walk_invariant
    [where P = "\<lambda>st. \<forall>t \<in> set (messages st). length (filter is_image_part (parts t)) \<le> max_images lims"])
  show "\<forall>t \<in> set (messages (walk_init cache trigger)).
          length (filter is_image_part (parts t)) \<le> max_images lims"
    by (simp add: walk_init_fields)
next
  fix m and st :: walk_state
  assume "\<forall>t \<in> set (messages st). length (filter is_image_part (parts t)) \<le> max_images lims"
  then show "\<forall>t \<in> set (messages (snd (loop_body env lims dm m st))).
               length (filter is_image_part (parts t)) \<le> max_images lims"
    using loop_body_messages [of env lims dm m st] by auto
qed

lemma loop_body_text_warning:
  assumes "fst (loop_body env lims dm m st) = None"
    and "msg_nodes (snd (loop_body env lims dm m st)) (msg_id m) = Some n"
    and "node_text n = Some txt" and "max_text lims < length txt"
  shows "WarnMaxText (max_text lims) \<in> user_warnings (snd (loop_body env lims dm m st))"
proof (cases env lims dm m st rule: loop_body_cases)
  case blocked
  then show ?thesis using assms(1) by simp
next
  case (raised n' e)
  then show ?thesis using assms(1) by simp
next
  case (emitted n')
  have "n' = n"
    using assms(2) emitted(3) by (simp add: emit_fields)
  then show ?thesis
    using emitted(3) assms(3,4) by (simp add: emit_fields add_warnings_text)
qed

lemma walk_warnings_mono:
  "user_warnings st0 \<subseteq> user_warnings (snd (walk fuel env lims dm st0))"
proof (rule walk_invariant [where P = "\<lambda>st. user_warnings st0 \<subseteq> user_warnings st"])
  show "user_warnings st0 \<subseteq> user_warnings st0" by simp
next
  fix m and st :: walk_state
  assume "user_warnings st0 \<subseteq> user_warnings st"
  then show "user_warnings st0 \<subseteq> user_warnings (snd (loop_body env lims dm m st))"
    using loop_body_warnings_mono [of st env lims dm m] by blast
qed

text \<open>
  Line 582 as written: a visited node that held more than \<open>max_images\<close> images would cause
  the warning. By \<open>cache_ok\<close> no node of the handler's cache is such a node.
\<close>

lemma add_warnings_many_images:
  "max_images lims < length (node_images n) \<Longrightarrow>
     WarnMaxImages (max_images lims) \<in> add_warnings lims n txt msgs ws"
  by (simp add: add_warnings_def Let_def)

lemma loop_body_image_warning:
  assumes "fst (loop_body env lims dm m st) = None"
    and "msg_nodes (snd (loop_body env lims dm m st)) (msg_id m) = Some n"
    and "max_images lims < length (node_images n)"
  shows "WarnMaxImages (max_images lims) \<in> user_warnings (snd (loop_body env lims dm m st))"
proof (cases env lims dm m st rule: loop_body_cases)
  case blocked
  then show ?thesis using assms(1) by simp
next
  case (raised n' e)
  then show ?thesis using assms(1) by simp
next
  case (emitted n')
  have n': "n' = n"
    using assms(2) emitted(3) by (simp add: emit_fields)
  obtain tx where tx: "node_text n = Some tx"
    using assms(1) emitted(3) n' by (cases "node_text n") (simp_all add: emit_def)
  show ?thesis
    using emitted(3) n' tx assms(3) by (simp add: emit_fields add_warnings_many_images)
qed

section \<open>Lemmas: the response driver\<close>

lemma api_edit_fields:
  "fst (api_edit ph i p pf) = outcomes pf (length (calls pf))"
  "next_id (snd (api_edit ph i p pf)) = next_id pf"
  "outcomes (snd (api_edit ph i p pf)) = outcomes pf"
  "reply_to (snd (api_edit ph i p pf)) = reply_to pf"
  "calls (snd (api_edit ph i p pf))
     = calls pf @ [\<lparr>le_call = EditMsg i p, le_phase = ph,
                     le_ok = (outcomes pf (length (calls pf)) = None)\<rparr>]"
  "shown (snd (api_edit ph i p pf))
     = (if outcomes pf (length (calls pf)) = None then (shown pf)(i \<mapsto> p) else shown pf)"
  by (simp_all add: api_edit_def split: option.splits)

lemma api_reply_fields:
  "fst (api_reply ph target p silent pf)
     = (case outcomes pf (length (calls pf)) of
          Some e \<Rightarrow> Inl e
        | None \<Rightarrow> Inr \<lparr>rm_id = next_id pf, rm_content = payload_content p\<rparr>)"
  "next_id (snd (api_reply ph target p silent pf))
     = (if outcomes pf (length (calls pf)) = None then next_id pf + 1 else next_id pf)"
  "outcomes (snd (api_reply ph target p silent pf)) = outcomes pf"
  "calls (snd (api_reply ph target p silent pf))
     = calls pf @ [\<lparr>le_call = ReplyTo target p silent, le_phase = ph,
                     le_ok = (outcomes pf (length (calls pf)) = None)\<rparr>]"
  "shown (snd (api_reply ph target p silent pf))
     = (if outcomes pf (length (calls pf)) = None then (shown pf)(next_id pf \<mapsto> p) else shown pf)"
  "reply_to (snd (api_reply ph target p silent pf))
     = (if outcomes pf (length (calls pf)) = None then (reply_to pf)(next_id pf \<mapsto> target)
        else reply_to pf)"
  by (simp_all add: api_reply_def split: option.splits)

lemma edit_last_fields:
  "fst (edit_last ph p st)
     = (if response_msgs st = [] then Some IndexError
        else outcomes (platform st) (length (calls (platform st))))"
  "response_msgs (snd (edit_last ph p st)) = response_msgs st"
  "response_contents (snd (edit_last ph p st)) = response_contents st"
  "embed (snd (edit_last ph p st)) = embed st"
  "chunk_buffer (snd (edit_last ph p st)) = chunk_buffer st"
  "curr_content (snd (edit_last ph p st)) = curr_content st"
  "last_edit_time (snd (edit_last ph p st)) = last_edit_time st"
  "nodes (snd (edit_last ph p st)) = nodes st"
  "platform (snd (edit_last ph p st))
     = (if response_msgs st = [] then platform st
        else snd (api_edit ph (rm_id (last (response_msgs st))) p (platform st)))"
  by (simp_all add: edit_last_def case_prod_beta api_edit_fields(1))

lemma edit_nth_fields:
  "fst (edit_nth ph i p st)
     = (if i < length (response_msgs st) then outcomes (platform st) (length (calls (platform st)))
        else Some IndexError)"
  "response_msgs (snd (edit_nth ph i p st)) = response_msgs st"
  "response_contents (snd (edit_nth ph i p st)) = response_contents st"
  "embed (snd (edit_nth ph i p st)) = embed st"
  "chunk_buffer (snd (edit_nth ph i p st)) = chunk_buffer st"
  "curr_content (snd (edit_nth ph i p st)) = curr_content st"
  "last_edit_time (snd (edit_nth ph i p st)) = last_edit_time st"
  "nodes (snd (edit_nth ph i p st)) = nodes st"
  "platform (snd (edit_nth ph i p st))
     = (if i < length (response_msgs st)
        then snd (api_edit ph (rm_id (response_msgs st ! i)) p (platform st))
        else platform st)"
  by (simp_all add: edit_nth_def case_prod_beta api_edit_fields(1))

lemma reply_helper_fields:
  "fst (reply_helper ctx ph p silent st) = outcomes (platform st) (length (calls (platform st)))"
  "response_msgs (snd (reply_helper ctx ph p silent st))
     = (if outcomes (platform st) (length (calls (platform st))) = None
        then response_msgs st @ [\<lparr>rm_id = next_id (platform st), rm_content = payload_content p\<rparr>]
        else response_msgs st)"
  "response_contents (snd (reply_helper ctx ph p silent st)) = response_contents st"
  "embed (snd (reply_helper ctx ph p silent st)) = embed st"
  "chunk_buffer (snd (reply_helper ctx ph p silent st)) = chunk_buffer st"
  "curr_content (snd (reply_helper ctx ph p silent st)) = curr_content st"
  "last_edit_time (snd (reply_helper ctx ph p silent st)) = last_edit_time st"
  "nodes (snd (reply_helper ctx ph p silent st))
     = (if outcomes (platform st) (length (calls (platform st))) = None
        then (nodes st)(next_id (platform st) \<mapsto>
               MsgNode\<lparr>parent_msg := Some (new_msg ctx), lock_held := True\<rparr>)
        else nodes st)"
  "platform (snd (reply_helper ctx ph p silent st))
     = snd (api_reply ph (if response_msgs st = [] then msg_id (new_msg ctx)
                          else rm_id (last (response_msgs st))) p silent (platform st))"
  by (simp_all add: reply_helper_def api_reply_def Let_def split: option.splits)

lemma registered_cong:
  assumes "response_msgs st' = response_msgs st" and "nodes st' = nodes st"
    and "next_id (platform st') = next_id (platform st)"
  shows "registered ctx n0 st' = registered ctx n0 st"
  using assms by (simp add: registered_def)

lemma registered_edit_last [simp]:
  "registered ctx n0 (snd (edit_last ph p st)) = registered ctx n0 st"
  by (rule registered_cong) (simp_all add: edit_last_fields api_edit_fields)

lemma registered_edit_nth [simp]:
  "registered ctx n0 (snd (edit_nth ph i p st)) = registered ctx n0 st"
  by (rule registered_cong) (simp_all add: edit_nth_fields api_edit_fields)

lemma registered_updates [simp]:
  "registered ctx n0 (st\<lparr>embed := e\<rparr>) = registered ctx n0 st"
  "registered ctx n0 (st\<lparr>response_contents := cs\<rparr>) = registered ctx n0 st"
  "registered ctx n0 (st\<lparr>chunk_buffer := b\<rparr>) = registered ctx n0 st"
  "registered ctx n0 (st\<lparr>curr_content := c\<rparr>) = registered ctx n0 st"
  "registered ctx n0 (st\<lparr>last_edit_time := t\<rparr>) = registered ctx n0 st"
  by (simp_all add: registered_def)

lemma registered_reply_helper:
  assumes "registered ctx n0 st"
  shows "registered ctx n0 (snd (reply_helper ctx ph p silent st))"
proof (cases "outcomes (platform st) (length (calls (platform st)))")
  case (Some e)
  then have "registered ctx n0 (snd (reply_helper ctx ph p silent st)) = registered ctx n0 st"
    by (intro registered_cong) (simp_all add: reply_helper_fields api_reply_fields)
  with assms show ?thesis by simp
next
  case None
  let ?n = "next_id (platform st)"
  have le: "n0 \<le> ?n" and ids: "map rm_id (response_msgs st) = [n0 .. ?n - 1]"
    and nd: "\<forall>rm \<in> set (response_msgs st).
           nodes st (rm_id rm) = Some (MsgNode\<lparr>parent_msg := Some (new_msg ctx), lock_held := True\<rparr>)"
    using assms by (simp_all add: registered_def)
  have notin: "?n \<notin> rm_id ` set (response_msgs st)"
  proof -
    have "rm_id ` set (response_msgs st) = set [n0 .. ?n - 1]"
      using ids by (metis set_map)
    then show ?thesis by simp
  qed
  have up: "[n0 .. ?n] = [n0 .. ?n - 1] @ [?n]"
    using le upto_rec2 [of n0 "?n"] by simp
  show ?thesis
    unfolding registered_def
    using None le ids nd notin up
    by (auto simp add: reply_helper_fields api_reply_fields)
qed


lemma registered_start_new_message:
  "registered ctx n0 st \<Longrightarrow> registered ctx n0 (start_new_message ctx t st)"
  by (simp add: start_new_message_def Let_def case_prod_beta option.case_eq_if
      registered_reply_helper)

lemma registered_init_first_message:
  "registered ctx n0 st \<Longrightarrow> registered ctx n0 (init_first_message ctx t st)"
  by (simp add: init_first_message_def Let_def case_prod_beta option.case_eq_if
      registered_reply_helper)

lemma registered_periodic_edit:
  "registered ctx n0 st \<Longrightarrow> registered ctx n0 (periodic_edit ctx t st)"
  by (simp add: periodic_edit_def Let_def case_prod_beta option.case_eq_if)

lemma registered_process_chunk:
  "registered ctx n0 st \<Longrightarrow> registered ctx n0 (process_chunk ctx c t st)"
  by (cases c)
     (simp_all add: process_chunk_def process_text_def Let_def registered_start_new_message
        registered_init_first_message registered_periodic_edit)

lemma registered_stream_loop:
  "registered ctx n0 st \<Longrightarrow> registered ctx n0 (snd (stream_loop ctx items st))"
  by (induction ctx items st rule: stream_loop.induct) (simp_all add: registered_process_chunk)

lemma registered_flush_buffer:
  "registered ctx n0 st \<Longrightarrow> registered ctx n0 (snd (flush_buffer st))"
  by (simp add: flush_buffer_def)

lemma registered_final_rich:
  "registered ctx n0 st \<Longrightarrow> registered ctx n0 (snd (final_rich ctx i cs st))"
proof (induction cs arbitrary: i st)
  case Nil
  then show ?case by simp
next
  case (Cons c cs)
  let ?st1 = "st\<lparr>embed := (embed st)\<lparr>description := Some c, color := Some dark_green\<rparr>\<rparr>"
  let ?r = "if i < length (response_msgs ?st1) then edit_nth FinalUpdate i (EmbedPayload (embed ?st1)) ?st1
            else reply_helper ctx FinalUpdate (EmbedPayload (embed ?st1)) True ?st1"
  have r: "registered ctx n0 (snd ?r)"
    using Cons.prems by (simp add: registered_reply_helper)
  show ?case
  proof (cases "fst ?r")
    case None
    then have "final_rich ctx i (c # cs) st = final_rich ctx (Suc i) cs (snd ?r)"
      by (simp add: Let_def case_prod_beta)
    then show ?thesis using Cons.IH [OF r] by simp
  next
    case (Some e)
    then have "final_rich ctx i (c # cs) st = (Some e, snd ?r)"
      by (simp add: Let_def case_prod_beta)
    then show ?thesis using r by simp
  qed
qed

lemma registered_final_plain:
  "registered ctx n0 st \<Longrightarrow> registered ctx n0 (snd (final_plain ctx cs st))"
proof (induction cs arbitrary: st)
  case Nil
  then show ?case by simp
next
  case (Cons c cs)
  let ?r = "if response_msgs st = [] \<or> rm_content (last (response_msgs st)) \<noteq> []
            then reply_helper ctx FinalUpdate (ContentPayload c) False st
            else edit_last FinalUpdate (ContentPayload c) st"
  have r: "registered ctx n0 (snd ?r)"
    using Cons.prems by (simp add: registered_reply_helper)
  show ?case
  proof (cases "fst ?r")
    case None
    then have "final_plain ctx (c # cs) st = final_plain ctx cs (snd ?r)"
      by (simp add: case_prod_beta)
    then show ?thesis using Cons.IH [OF r] by simp
  next
    case (Some e)
    then have "final_plain ctx (c # cs) st = (Some e, snd ?r)"
      by (simp add: case_prod_beta)
    then show ?thesis using r by simp
  qed
qed

lemma registered_final_update:
  "registered ctx n0 st \<Longrightarrow> registered ctx n0 (snd (final_update ctx st))"
  by (simp add: final_update_def case_prod_beta option.case_eq_if registered_flush_buffer
      registered_final_rich registered_final_plain)

lemma registered_try_block:
  "registered ctx n0 st \<Longrightarrow> registered ctx n0 (snd (try_block ctx items st))"
  by (simp add: try_block_def case_prod_beta option.case_eq_if registered_stream_loop
      registered_final_update)

lemma registered_error_handler:
  "registered ctx n0 st \<Longrightarrow> registered ctx n0 (snd (error_handler ctx st))"
  by (simp add: error_handler_def Let_def registered_reply_helper)

lemma registered_driver_init:
  "registered ctx (next_id pf) (driver_init embed0 cache pf)"
  by (simp add: registered_def driver_init_def)

lemma store_loop_locked:
  assumes "distinct (map rm_id rms)"
    and "\<forall>rm \<in> set rms. ns (rm_id rm) = Some (MsgNode\<lparr>parent_msg := Some m, lock_held := True\<rparr>)"
  shows "fst (store_loop t rms ns) = None
         \<and> (\<forall>rm \<in> set rms. snd (store_loop t rms ns) (rm_id rm)
                = Some (MsgNode\<lparr>node_text := Some t, parent_msg := Some m\<rparr>))
         \<and> (\<forall>k. k \<notin> rm_id ` set rms \<longrightarrow> snd (store_loop t rms ns) k = ns k)"
  using assms
proof (induction rms arbitrary: ns)
  case Nil
  then show ?case by simp
next
  case (Cons rm rms)
  let ?n = "MsgNode\<lparr>parent_msg := Some m, lock_held := True\<rparr>"
  define ns' where "ns' = ns(rm_id rm \<mapsto> ?n\<lparr>node_text := Some t, lock_held := False\<rparr>)"
  have here: "ns (rm_id rm) = Some ?n"
    using Cons.prems(2) by simp
  have step: "store_loop t (rm # rms) ns = store_loop t rms ns'"
    using here by (simp add: MsgNode_def ns'_def)
  have fresh: "rm_id rm \<notin> rm_id ` set rms" and d: "distinct (map rm_id rms)"
    using Cons.prems(1) by simp_all
  have rest: "\<forall>r \<in> set rms. ns' (rm_id r) = Some ?n"
  proof
    fix r
    assume r: "r \<in> set rms"
    then have "rm_id r \<noteq> rm_id rm"
      using fresh by (metis image_eqI)
    then show "ns' (rm_id r) = Some ?n"
      using Cons.prems(2) r by (simp add: ns'_def)
  qed
  have IH1: "fst (store_loop t rms ns') = None"
    and IH2: "\<forall>r \<in> set rms. snd (store_loop t rms ns') (rm_id r)
                = Some (MsgNode\<lparr>node_text := Some t, parent_msg := Some m\<rparr>)"
    and IH3: "\<forall>k. k \<notin> rm_id ` set rms \<longrightarrow> snd (store_loop t rms ns') k = ns' k"
    using Cons.IH [OF d rest] by blast+
  have fin: "ns' (rm_id rm) = Some (MsgNode\<lparr>node_text := Some t, parent_msg := Some m\<rparr>)"
    by (simp add: ns'_def MsgNode_def)
  have a: "fst (store_loop t (rm # rms) ns) = None"
    unfolding step by (rule IH1)
  have b: "\<forall>r \<in> set (rm # rms). snd (store_loop t (rm # rms) ns) (rm_id r)
                = Some (MsgNode\<lparr>node_text := Some t, parent_msg := Some m\<rparr>)"
    unfolding step using IH2 IH3 fresh fin by (metis set_ConsD)
  have c: "\<forall>k. k \<notin> rm_id ` set (rm # rms) \<longrightarrow> snd (store_loop t (rm # rms) ns) k = ns k"
  proof (intro allI impI)
    fix k
    assume k: "k \<notin> rm_id ` set (rm # rms)"
    then have "k \<noteq> rm_id rm" and "k \<notin> rm_id ` set rms" by auto
    then show "snd (store_loop t (rm # rms) ns) k = ns k"
      unfolding step using IH3 by (simp add: ns'_def)
  qed
  from a b c show ?case by blast
qed

lemma registered_distinct:
  assumes "registered ctx n0 st"
  shows "distinct (map rm_id (response_msgs st))"
  using assms by (simp add: registered_def)

lemma store_final_registered:
  assumes "registered ctx n0 st"
  shows "fst (store_final oc st) = oc"
    and "response_msgs (snd (store_final oc st)) = response_msgs st"
    and "response_contents (snd (store_final oc st)) = response_contents st"
    and "platform (snd (store_final oc st)) = platform st"
    and "\<forall>rm \<in> set (response_msgs st).
           nodes (snd (store_final oc st)) (rm_id rm)
             = Some (MsgNode\<lparr>node_text := Some (concat (response_contents st)),
                             parent_msg := Some (new_msg ctx)\<rparr>)"
proof -
  let ?r = "store_loop (concat (response_contents st)) (response_msgs st) (nodes st)"
  have nd: "\<forall>rm \<in> set (response_msgs st).
           nodes st (rm_id rm) = Some (MsgNode\<lparr>parent_msg := Some (new_msg ctx), lock_held := True\<rparr>)"
    using assms by (simp add: registered_def)
  note sl = store_loop_locked [OF registered_distinct [OF assms] nd,
      of "concat (response_contents st)"]
  have eq: "store_final oc st = (oc, st\<lparr>nodes := snd ?r\<rparr>)"
    using sl by (simp add: store_final_def case_prod_beta)
  show "fst (store_final oc st) = oc" by (simp add: eq)
  show "response_msgs (snd (store_final oc st)) = response_msgs st" by (simp add: eq)
  show "response_contents (snd (store_final oc st)) = response_contents st" by (simp add: eq)
  show "platform (snd (store_final oc st)) = platform st" by (simp add: eq)
  show "\<forall>rm \<in> set (response_msgs st).
           nodes (snd (store_final oc st)) (rm_id rm)
             = Some (MsgNode\<lparr>node_text := Some (concat (response_contents st)),
                             parent_msg := Some (new_msg ctx)\<rparr>)"
    using sl by (simp add: eq)
qed

lemma respond_cases [consumes 0, case_names completed failed crashed]:
  fixes ctx items st0
  obtains st1 where "try_block ctx items st0 = (None, st1)"
      "respond ctx items st0 = store_final Completed st1"
  | e st1 st2 where "try_block ctx items st0 = (Some e, st1)" "error_handler ctx st1 = (None, st2)"
      "respond ctx items st0 = store_final Failed st2"
  | e st1 e' st2 where "try_block ctx items st0 = (Some e, st1)"
      "error_handler ctx st1 = (Some e', st2)" "respond ctx items st0 = (Crashed e', st2)"
proof -
  obtain r st1 where tb: "try_block ctx items st0 = (r, st1)"
    by (cases "try_block ctx items st0")
  show ?thesis
  proof (cases r)
    case None
    with tb show ?thesis using that(1) [of st1] by (simp add: respond_def)
  next
    case (Some e)
    obtain r' st2 where eh: "error_handler ctx st1 = (r', st2)"
      by (cases "error_handler ctx st1")
    show ?thesis
    proof (cases r')
      case None
      with tb Some eh show ?thesis using that(2) [of e st1 st2] by (simp add: respond_def)
    next
      case (Some e')
      with tb \<open>r = Some e\<close> eh show ?thesis using that(3) [of e st1 e' st2] by (simp add: respond_def)
    qed
  qed
qed

lemma readings_spaced_Nil [simp]: "readings_spaced []"
  by (simp add: readings_spaced_def)

lemma readings_spacedD:
  "readings_spaced es \<Longrightarrow> j < length es \<Longrightarrow> in_progress_edit (es ! j) \<Longrightarrow> i < j \<Longrightarrow>
     resets_timer (es ! i) \<Longrightarrow> readings_apart (es ! i) (es ! j)"
  by (simp add: readings_spaced_def)

lemma readings_spaced_snoc:
  "readings_spaced (es @ [e]) \<longleftrightarrow>
     readings_spaced es \<and> (in_progress_edit e \<longrightarrow> (\<forall>e' \<in> set es. resets_timer e' \<longrightarrow> readings_apart e' e))"
proof
  assume a: "readings_spaced (es @ [e])"
  have 1: "readings_spaced es"
    unfolding readings_spaced_def
  proof (intro allI impI)
    fix j i
    assume j: "j < length es" and ip: "in_progress_edit (es ! j)" and i: "i < j"
      and r: "resets_timer (es ! i)"
    have "readings_apart ((es @ [e]) ! i) ((es @ [e]) ! j)"
      using j ip i r by (intro readings_spacedD [OF a]) (simp_all add: nth_append)
    then show "readings_apart (es ! i) (es ! j)"
      using j i by (simp add: nth_append)
  qed
  have 2: "in_progress_edit e \<longrightarrow> (\<forall>e' \<in> set es. resets_timer e' \<longrightarrow> readings_apart e' e)"
  proof (intro impI ballI)
    fix e'
    assume ip: "in_progress_edit e" and e': "e' \<in> set es" and r: "resets_timer e'"
    obtain i where i: "i < length es" "es ! i = e'"
      using e' by (auto simp: in_set_conv_nth)
    have "readings_apart ((es @ [e]) ! i) ((es @ [e]) ! length es)"
      using ip i r by (intro readings_spacedD [OF a]) (simp_all add: nth_append)
    then show "readings_apart e' e"
      using i by (simp add: nth_append)
  qed
  from 1 2 show "readings_spaced es \<and> (in_progress_edit e \<longrightarrow> (\<forall>e' \<in> set es. resets_timer e' \<longrightarrow> readings_apart e' e))"
    by simp
next
  assume a: "readings_spaced es \<and> (in_progress_edit e \<longrightarrow> (\<forall>e' \<in> set es. resets_timer e' \<longrightarrow> readings_apart e' e))"
  then have a1: "readings_spaced es"
    and a2: "in_progress_edit e \<Longrightarrow> e' \<in> set es \<Longrightarrow> resets_timer e' \<Longrightarrow> readings_apart e' e" for e'
    by simp_all
  show "readings_spaced (es @ [e])"
    unfolding readings_spaced_def
  proof (intro allI impI)
    fix j i
    assume j: "j < length (es @ [e])" and ip: "in_progress_edit ((es @ [e]) ! j)"
      and i: "i < j" and r: "resets_timer ((es @ [e]) ! i)"
    show "readings_apart ((es @ [e]) ! i) ((es @ [e]) ! j)"
    proof (cases "j < length es")
      case True
      have "readings_apart (es ! i) (es ! j)"
        using True ip i r by (intro readings_spacedD [OF a1]) (simp_all add: nth_append)
      then show ?thesis
        using True i by (simp add: nth_append)
    next
      case False
      then have jl: "j = length es" using j by simp
      have m: "es ! i \<in> set es" using i jl by simp
      have "readings_apart (es ! i) e"
        using ip r i jl by (intro a2 [OF _ m]) (simp_all add: nth_append)
      then show ?thesis
        using i jl by (simp add: nth_append)
    qed
  qed
qed

lemma timing_inv_mono: "timing_inv T st \<Longrightarrow> T \<le> T' \<Longrightarrow> timing_inv T' st"
  unfolding timing_inv_def by (meson order_trans)

lemma timing_inv_cong:
  "calls (platform st') = calls (platform st) \<Longrightarrow> last_edit_time st' = last_edit_time st \<Longrightarrow>
     timing_inv T st' = timing_inv T st"
  by (simp add: timing_inv_def)

lemma timing_inv_add:
  assumes inv: "timing_inv T st" and le: "T \<le> t"
    and calls: "calls (platform st') = calls (platform st) @ [e]"
    and time: "chunk_reading e = Some t"
    and guard: "in_progress_edit e \<longrightarrow> t - last_edit_time st \<ge> EDIT_DELAY_SECONDS"
    and timer: "last_edit_time st' = (if resets_timer e then t else last_edit_time st)"
  shows "timing_inv t st'"
proof -
  have sp: "readings_spaced (calls (platform st))"
    and bound: "\<And>e'. e' \<in> set (calls (platform st)) \<Longrightarrow> \<exists>u. chunk_reading e' = Some u \<and> u \<le> T"
    and reset: "\<And>e'. e' \<in> set (calls (platform st)) \<Longrightarrow> resets_timer e' \<Longrightarrow>
                  \<exists>u. chunk_reading e' = Some u \<and> u \<le> last_edit_time st"
    using inv by (auto simp: timing_inv_def)
  have 1: "readings_spaced (calls (platform st'))"
    unfolding calls readings_spaced_snoc
  proof (intro conjI impI ballI)
    show "readings_spaced (calls (platform st))" by (rule sp)
  next
    fix e'
    assume ip: "in_progress_edit e" and m: "e' \<in> set (calls (platform st))" and r: "resets_timer e'"
    obtain u where u: "chunk_reading e' = Some u" "u \<le> last_edit_time st"
      using reset [OF m r] by blast
    have "t - last_edit_time st \<ge> EDIT_DELAY_SECONDS"
      using guard ip by simp
    then have "t - u \<ge> EDIT_DELAY_SECONDS"
      using u(2) by simp
    then show "readings_apart e' e"
      by (simp add: readings_apart_def u(1) time)
  qed
  have 2: "\<forall>e' \<in> set (calls (platform st')). \<exists>u. chunk_reading e' = Some u \<and> u \<le> t"
    unfolding calls using bound le time by fastforce
  have 3: "\<forall>e' \<in> set (calls (platform st')).
             resets_timer e' \<longrightarrow> (\<exists>u. chunk_reading e' = Some u \<and> u \<le> last_edit_time st')"
  proof (intro ballI impI)
    fix e'
    assume m: "e' \<in> set (calls (platform st'))" and r: "resets_timer e'"
    show "\<exists>u. chunk_reading e' = Some u \<and> u \<le> last_edit_time st'"
    proof (cases "e' = e")
      case True
      then show ?thesis using r time timer by simp
    next
      case False
      then have m': "e' \<in> set (calls (platform st))"
        using m calls by simp
      obtain u where u: "chunk_reading e' = Some u" "u \<le> last_edit_time st" "u \<le> T"
        using reset [OF m' r] bound [OF m'] by fastforce
      show ?thesis
        using u le timer by (cases "resets_timer e") auto
    qed
  qed
  from 1 2 3 show ?thesis by (simp add: timing_inv_def)
qed

lemma periodic_edit_timing:
  assumes "timing_inv T st" and "T \<le> t" and "t - last_edit_time st \<ge> EDIT_DELAY_SECONDS"
  shows "timing_inv t (periodic_edit ctx t st)"
proof (cases "response_msgs st = []")
  case True
  then have "timing_inv t (periodic_edit ctx t st) = timing_inv t st"
    by (intro timing_inv_cong)
       (simp_all add: periodic_edit_def Let_def case_prod_beta option.case_eq_if edit_last_fields)
  then show ?thesis
    using timing_inv_mono [OF assms(1,2)] by simp
next
  case False
  let ?p = "EmbedPayload ((embed st)\<lparr>description := Some (last (response_contents st) @ chunk_buffer st
                 @ STREAMING_INDICATOR), color := Some orange\<rparr>)"
  let ?e = "\<lparr>le_call = EditMsg (rm_id (last (response_msgs st))) ?p, le_phase = Streaming t,
             le_ok = (outcomes (platform st) (length (calls (platform st))) = None)\<rparr>"
  show ?thesis
  proof (rule timing_inv_add [OF assms(1,2), where e = ?e])
    show "calls (platform (periodic_edit ctx t st)) = calls (platform st) @ [?e]"
      using False
      by (simp add: periodic_edit_def Let_def case_prod_beta option.case_eq_if edit_last_fields
          api_edit_fields)
    show "chunk_reading ?e = Some t"
      by (simp add: chunk_reading_def)
    show "in_progress_edit ?e \<longrightarrow> EDIT_DELAY_SECONDS \<le> t - last_edit_time st"
      using assms(3) by simp
    show "last_edit_time (periodic_edit ctx t st) = (if resets_timer ?e then t else last_edit_time st)"
      using False
      by (simp add: periodic_edit_def Let_def case_prod_beta option.case_eq_if edit_last_fields
          api_edit_fields resets_timer_def in_progress_edit_def is_reply_def)
  qed
qed


lemma timing_inv_updates [simp]:
  "timing_inv T (st\<lparr>embed := e\<rparr>) = timing_inv T st"
  "timing_inv T (st\<lparr>response_contents := cs\<rparr>) = timing_inv T st"
  "timing_inv T (st\<lparr>chunk_buffer := b\<rparr>) = timing_inv T st"
  "timing_inv T (st\<lparr>curr_content := c\<rparr>) = timing_inv T st"
  by (simp_all add: timing_inv_def)

lemma edit_last_timing:
  assumes "timing_inv T st" and "T \<le> t"
    and "\<not> in_progress_edit \<lparr>le_call = EditMsg i p, le_phase = Streaming t, le_ok = True\<rparr>"
  shows "timing_inv t (snd (edit_last (Streaming t) p st))"
proof (cases "response_msgs st = []")
  case True
  then have "timing_inv t (snd (edit_last (Streaming t) p st)) = timing_inv t st"
    by (intro timing_inv_cong) (simp_all add: edit_last_fields)
  then show ?thesis
    using timing_inv_mono [OF assms(1,2)] by simp
next
  case False
  let ?e = "\<lparr>le_call = EditMsg (rm_id (last (response_msgs st))) p, le_phase = Streaming t,
             le_ok = (outcomes (platform st) (length (calls (platform st))) = None)\<rparr>"
  have np: "\<not> in_progress_edit ?e"
    using assms(3) by (simp add: in_progress_edit_def)
  show ?thesis
  proof (rule timing_inv_add [OF assms(1,2), where e = ?e])
    show "calls (platform (snd (edit_last (Streaming t) p st))) = calls (platform st) @ [?e]"
      using False by (simp add: edit_last_fields api_edit_fields)
    show "chunk_reading ?e = Some t"
      by (simp add: chunk_reading_def)
    show "in_progress_edit ?e \<longrightarrow> EDIT_DELAY_SECONDS \<le> t - last_edit_time st"
      using np by simp
    show "last_edit_time (snd (edit_last (Streaming t) p st))
            = (if resets_timer ?e then t else last_edit_time st)"
      using np by (simp add: edit_last_fields resets_timer_def is_reply_def)
  qed
qed

lemma reply_helper_timing:
  assumes "timing_inv T st" and "T \<le> t"
  shows "timing_inv t
           (if fst (reply_helper ctx (Streaming t) p silent st) = None
            then (snd (reply_helper ctx (Streaming t) p silent st))\<lparr>last_edit_time := t\<rparr>
            else snd (reply_helper ctx (Streaming t) p silent st))"
proof -
  let ?target = "if response_msgs st = [] then msg_id (new_msg ctx) else rm_id (last (response_msgs st))"
  let ?e = "\<lparr>le_call = ReplyTo ?target p silent, le_phase = Streaming t,
             le_ok = (outcomes (platform st) (length (calls (platform st))) = None)\<rparr>"
  show ?thesis
  proof (rule timing_inv_add [OF assms(1,2), where e = ?e])
    show "calls (platform (if fst (reply_helper ctx (Streaming t) p silent st) = None
            then (snd (reply_helper ctx (Streaming t) p silent st))\<lparr>last_edit_time := t\<rparr>
            else snd (reply_helper ctx (Streaming t) p silent st))) = calls (platform st) @ [?e]"
      by (simp add: reply_helper_fields api_reply_fields)
    show "chunk_reading ?e = Some t"
      by (simp add: chunk_reading_def)
    show "in_progress_edit ?e \<longrightarrow> EDIT_DELAY_SECONDS \<le> t - last_edit_time st"
      by (simp add: in_progress_edit_def)
    show "last_edit_time (if fst (reply_helper ctx (Streaming t) p silent st) = None
            then (snd (reply_helper ctx (Streaming t) p silent st))\<lparr>last_edit_time := t\<rparr>
            else snd (reply_helper ctx (Streaming t) p silent st))
            = (if resets_timer ?e then t else last_edit_time st)"
      by (simp add: reply_helper_fields resets_timer_def is_reply_def)
  qed
qed

lemma init_first_message_timing:
  assumes "timing_inv T st" and "T \<le> t"
  shows "timing_inv t (init_first_message ctx t st)"
proof (cases "use_plain_responses ctx")
  case True
  then show ?thesis
    using timing_inv_mono [OF assms] by (simp add: init_first_message_def Let_def)
next
  case False
  let ?st1 = "st\<lparr>response_contents := response_contents st @ [chunk_buffer st], chunk_buffer := []\<rparr>"
  let ?st2 = "?st1\<lparr>embed := (embed ?st1)\<lparr>description :=
                 Some (last (response_contents ?st1) @ STREAMING_INDICATOR), color := Some orange\<rparr>\<rparr>"
  have inv2: "timing_inv T ?st2"
    using assms(1) by simp
  show ?thesis
    using reply_helper_timing [OF inv2 assms(2), of ctx "EmbedPayload (embed ?st2)" True] False
    by (simp add: init_first_message_def Let_def case_prod_beta option.case_eq_if if_distrib
        cong: if_cong)
qed

lemma start_new_message_timing:
  assumes "timing_inv T st" and "T \<le> t"
  shows "timing_inv t (start_new_message ctx t st)"
proof (cases "use_plain_responses ctx")
  case True
  then show ?thesis
    using timing_inv_mono [OF assms] by (simp add: start_new_message_def Let_def)
next
  case False
  let ?st1 = "st\<lparr>embed := (embed st)\<lparr>description := Some (last (response_contents st)),
                                      color := Some dark_green\<rparr>\<rparr>"
  let ?r = "edit_last (Streaming t) (EmbedPayload (embed ?st1)) ?st1"
  have inv1: "timing_inv T ?st1"
    using assms(1) by simp
  have inv2: "timing_inv t (snd ?r)"
    by (rule edit_last_timing [OF inv1 assms(2), where i = 0]) (simp add: in_progress_edit_def)
  show ?thesis
  proof (cases "fst ?r")
    case (Some e)
    then have "start_new_message ctx t st = snd ?r"
      using False by (simp add: start_new_message_def Let_def case_prod_beta)
    then show ?thesis using inv2 by simp
  next
    case None
    let ?st3 = "(snd ?r)\<lparr>response_contents := response_contents (snd ?r) @ [chunk_buffer (snd ?r)],
                          chunk_buffer := []\<rparr>"
    let ?st4 = "?st3\<lparr>embed := Embed\<lparr>description :=
                   Some (last (response_contents ?st3) @ STREAMING_INDICATOR), color := Some orange\<rparr>\<rparr>"
    have inv4: "timing_inv t ?st4"
      using inv2 by simp
    have eq: "start_new_message ctx t st
        = (if fst (reply_helper ctx (Streaming t) (EmbedPayload (embed ?st4)) True ?st4) = None
           then (snd (reply_helper ctx (Streaming t) (EmbedPayload (embed ?st4)) True ?st4))
                  \<lparr>last_edit_time := t\<rparr>
           else snd (reply_helper ctx (Streaming t) (EmbedPayload (embed ?st4)) True ?st4))"
      using False None
      by (simp add: start_new_message_def Let_def case_prod_beta option.case_eq_if)
    show ?thesis
      unfolding eq by (rule reply_helper_timing [OF inv4]) simp
  qed
qed

lemma process_chunk_timing:
  assumes "timing_inv T st" and "T \<le> t"
  shows "timing_inv t (process_chunk ctx c t st)"
proof (cases c)
  case (TextChunk tx)
  let ?st = "st\<lparr>chunk_buffer := chunk_buffer st @ tx, curr_content := curr_content st @ tx\<rparr>"
  have inv: "timing_inv T ?st"
    using assms(1) by simp
  have le: "last_edit_time ?st = last_edit_time st" by simp
  show ?thesis
    unfolding TextChunk process_chunk_def process_text_def Let_def chunk.case
    using start_new_message_timing [OF inv assms(2)] init_first_message_timing [OF inv assms(2)]
      periodic_edit_timing [OF inv assms(2)] timing_inv_mono [OF inv assms(2)]
    by (simp del: timing_inv_updates)
qed (use timing_inv_mono [OF assms] in \<open>simp_all add: process_chunk_def\<close>)

lemma stream_loop_timing:
  assumes "timing_inv T st" and "sorted (item_times items)" and "\<forall>t \<in> set (item_times items). T \<le> t"
  shows "\<exists>T'. timing_inv T' (snd (stream_loop ctx items st))"
  using assms
proof (induction ctx items st arbitrary: T rule: stream_loop.induct)
  case (1 ctx st)
  then show ?case by auto
next
  case (2 ctx rest st)
  then show ?case by auto
next
  case (3 ctx c t rest st)
  have "timing_inv t (process_chunk ctx c t st)"
    using process_chunk_timing [OF "3.prems"(1)] "3.prems"(3) by simp
  moreover have "sorted (item_times rest)" and "\<forall>u \<in> set (item_times rest). t \<le> u"
    using "3.prems"(2) by simp_all
  ultimately show ?case
    using "3.IH" by simp
qed

lemmas driver_defs =
  process_chunk_def process_text_def start_new_message_def init_first_message_def
  periodic_edit_def reply_helper_def edit_last_def edit_nth_def api_reply_def api_edit_def
  flush_buffer_def final_update_def try_block_def error_handler_def store_final_def respond_def
  driver_init_def fresh_platform_def max_message_length_of_def STREAMING_INDICATOR_def
  EDIT_DELAY_SECONDS_def Embed_def payload_content_def

lemmas driver_ex_defs = ex_ctx_def ex_platform_def ex_platform_edit_fails_def ex_driver_init_def

lemmas log_defs = is_edit_def is_reply_def in_progress_edit_def resets_timer_def chunk_reading_def
  readings_apart_def

lemmas driver_stream_defs = ex_driver_init_edit_fails_def ex_stream_hello_def ex_stream_abc_def
  ex_stream_overflow_def section8_stream_def

lemma error_handler_fields:
  "fst (error_handler ctx st) = outcomes (platform st) (length (calls (platform st)))"
  "response_contents (snd (error_handler ctx st)) = response_contents st"
  "calls (platform (snd (error_handler ctx st)))
     = calls (platform st)
       @ [\<lparr>le_call = error_call ctx st, le_phase = ErrorHandler,
            le_ok = (outcomes (platform st) (length (calls (platform st))) = None)\<rparr>]"
  "shown (platform (snd (error_handler ctx st)))
     = (if outcomes (platform st) (length (calls (platform st))) = None
        then (shown (platform st))(error_target st \<mapsto> error_payload ctx st)
        else shown (platform st))"
  by (simp_all add: error_handler_def error_call_def error_payload_def error_target_def Let_def
      edit_last_fields reply_helper_fields api_edit_fields api_reply_fields)

lemma stream_loop_fst:
  "fst (stream_loop ctx items st) = (if StreamFails \<in> set items then Some GenerationError else None)"
  by (induction ctx items st rule: stream_loop.induct) simp_all

lemma stream_loop_prefix:
  "snd (stream_loop ctx items st)
     = snd (stream_loop ctx (takeWhile (\<lambda>x. x \<noteq> StreamFails) items) st)"
  by (induction ctx items st rule: stream_loop.induct) simp_all

lemma overflow_rich:
  assumes "\<not> use_plain_responses ctx" and "response_contents st \<noteq> []" and "response_msgs st \<noteq> []"
    and "length (last (response_contents st) @ chunk_buffer st @ tx) > max_message_length ctx"
    and "outcomes (platform st) (length (calls (platform st))) = None"
    and "outcomes (platform st) (Suc (length (calls (platform st)))) = None"
    and "rm_id (last (response_msgs st)) < next_id (platform st)"
  shows "response_contents (process_chunk ctx (TextChunk tx) t st)
           = response_contents st @ [chunk_buffer st @ tx]"
    and "chunk_buffer (process_chunk ctx (TextChunk tx) t st) = []"
    and "shown (platform (process_chunk ctx (TextChunk tx) t st)) (rm_id (last (response_msgs st)))
           = Some (EmbedPayload ((embed st)\<lparr>description := Some (last (response_contents st)),
                                            color := Some dark_green\<rparr>))"
    and "response_msgs (process_chunk ctx (TextChunk tx) t st)
           = response_msgs st @ [\<lparr>rm_id = next_id (platform st), rm_content = []\<rparr>]"
    and "shown (platform (process_chunk ctx (TextChunk tx) t st)) (next_id (platform st))
           = Some (EmbedPayload (Embed\<lparr>description := Some (chunk_buffer st @ tx @ STREAMING_INDICATOR),
                                        color := Some orange\<rparr>))"
    and "reply_to (platform (process_chunk ctx (TextChunk tx) t st)) (next_id (platform st))
           = Some (rm_id (last (response_msgs st)))"
    and "last_edit_time (process_chunk ctx (TextChunk tx) t st) = t"
  using assms
  by (simp_all add: process_chunk_def process_text_def start_new_message_def Let_def
      case_prod_beta option.case_eq_if edit_last_fields reply_helper_fields api_edit_fields
      api_reply_fields payload_content_def)

lemma overflow_plain:
  assumes "use_plain_responses ctx" and "response_contents st \<noteq> []"
    and "length (last (response_contents st) @ chunk_buffer st @ tx) > max_message_length ctx"
  shows "response_contents (process_chunk ctx (TextChunk tx) t st)
           = response_contents st @ [chunk_buffer st @ tx]"
    and "chunk_buffer (process_chunk ctx (TextChunk tx) t st) = []"
    and "platform (process_chunk ctx (TextChunk tx) t st) = platform st"
    and "response_msgs (process_chunk ctx (TextChunk tx) t st) = response_msgs st"
  using assms
  by (simp_all add: process_chunk_def process_text_def start_new_message_def Let_def)

lemma section8_one_message:
  assumes "length filler = 3800" and "3822 \<le> cap"
  shows "fst (respond (ex_ctx\<lparr>max_message_length := cap\<rparr>) (section8_stream filler) ex_driver_init)
           = Completed"
    and "response_msgs (snd (respond (ex_ctx\<lparr>max_message_length := cap\<rparr>) (section8_stream filler)
            ex_driver_init)) = [\<lparr>rm_id = 1000, rm_content = []\<rparr>]"
    and "response_contents (snd (respond (ex_ctx\<lparr>max_message_length := cap\<rparr>)
            (section8_stream filler) ex_driver_init))
           = [''Hello world, '' @ filler @ ''overflow!'']"
    and "shown (platform (snd (respond (ex_ctx\<lparr>max_message_length := cap\<rparr>)
            (section8_stream filler) ex_driver_init))) 1000
           = Some (EmbedPayload (Embed\<lparr>description := Some (''Hello world, '' @ filler @ ''overflow!''),
                                        color := Some dark_green\<rparr>))"
  using assms
  by (simp_all add: driver_defs driver_ex_defs driver_stream_defs Let_def MsgNode_def)


text \<open>
  With a filler of 4080 characters the capacity of 4094 is exceeded at the last delta. The
  first message then keeps \<open>"Hello "\<close>, the content committed when it was created, and the
  second message receives everything buffered since, not the last delta alone.
\<close>

lemma overflow_two_messages:
  assumes "length filler = 4080"
  shows "fst (respond ex_ctx (section8_stream filler) ex_driver_init) = Completed"
    and "map rm_id (response_msgs (snd (respond ex_ctx (section8_stream filler) ex_driver_init)))
           = [1000, 1001]"
    and "response_contents (snd (respond ex_ctx (section8_stream filler) ex_driver_init))
           = [''Hello '', ''world, '' @ filler @ ''overflow!'']"
    and "shown (platform (snd (respond ex_ctx (section8_stream filler) ex_driver_init))) 1000
           = Some (EmbedPayload (Embed\<lparr>description := Some ''Hello '', color := Some dark_green\<rparr>))"
    and "shown (platform (snd (respond ex_ctx (section8_stream filler) ex_driver_init))) 1001
           = Some (EmbedPayload (Embed\<lparr>description := Some (''world, '' @ filler @ ''overflow!''),
                                        color := Some dark_green\<rparr>))"
    and "reply_to (platform (snd (respond ex_ctx (section8_stream filler) ex_driver_init))) 1001
           = Some 1000"
  using assms
  by (simp_all add: driver_defs driver_ex_defs driver_stream_defs Let_def MsgNode_def)

text \<open>
  The texts of the driver: the contents collected with the buffer make up the text received
  so far, which is \<open>curr_content\<close>; the final update moves the buffer into the contents and
  nothing after the stream loop changes them otherwise.
\<close>

lemma start_new_message_content:
  "concat (response_contents (start_new_message ctx t st)) @ chunk_buffer (start_new_message ctx t st)
     = concat (response_contents st) @ chunk_buffer st"
  "curr_content (start_new_message ctx t st) = curr_content st"
  by (simp_all add: start_new_message_def Let_def case_prod_beta option.case_eq_if
      edit_last_fields reply_helper_fields)

lemma init_first_message_content:
  "concat (response_contents (init_first_message ctx t st)) @ chunk_buffer (init_first_message ctx t st)
     = concat (response_contents st) @ chunk_buffer st"
  "curr_content (init_first_message ctx t st) = curr_content st"
  by (simp_all add: init_first_message_def Let_def case_prod_beta option.case_eq_if
      reply_helper_fields)

lemma periodic_edit_content:
  "response_contents (periodic_edit ctx t st) = response_contents st"
  "chunk_buffer (periodic_edit ctx t st) = chunk_buffer st"
  "curr_content (periodic_edit ctx t st) = curr_content st"
  by (simp_all add: periodic_edit_def Let_def case_prod_beta option.case_eq_if edit_last_fields)

lemma process_chunk_content:
  "concat (response_contents (process_chunk ctx c t st)) @ chunk_buffer (process_chunk ctx c t st)
     = concat (response_contents st) @ chunk_buffer st @ received [Chunk c t]"
  "curr_content (process_chunk ctx c t st) = curr_content st @ received [Chunk c t]"
  by (cases c; simp add: process_chunk_def process_text_def Let_def start_new_message_content
      init_first_message_content periodic_edit_content)+

lemma received_Chunk: "received (Chunk c t # rest) = received [Chunk c t] @ received rest"
  by (cases c) simp_all

lemma stream_loop_content:
  "concat (response_contents (snd (stream_loop ctx items st)))
      @ chunk_buffer (snd (stream_loop ctx items st))
     = concat (response_contents st) @ chunk_buffer st @ received items"
  "curr_content (snd (stream_loop ctx items st)) = curr_content st @ received items"
proof (induction ctx items st rule: stream_loop.induct)
  case (1 ctx st)
  { case 1 show ?case by simp next
    case 2 show ?case by simp }
next
  case (2 ctx rest st)
  { case 1 show ?case by simp next
    case 2 show ?case by simp }
next
  case (3 ctx c current_time rest st)
  { case 1
    show ?case
      using 3(1) by (simp add: process_chunk_content(1) received_Chunk [of c current_time rest])
  next
    case 2
    show ?case
      using 3(2) by (simp add: process_chunk_content(2) received_Chunk [of c current_time rest]) }
qed

lemma flush_buffer_content:
  "chunk_buffer (snd (flush_buffer st)) = chunk_buffer st"
  "curr_content (snd (flush_buffer st)) = curr_content st"
  "fst (flush_buffer st) = None \<Longrightarrow>
     concat (response_contents (snd (flush_buffer st)))
       = concat (response_contents st) @ chunk_buffer st"
  "fst (flush_buffer st) \<noteq> None \<Longrightarrow> snd (flush_buffer st) = st"
proof -
  show "chunk_buffer (snd (flush_buffer st)) = chunk_buffer st"
    "curr_content (snd (flush_buffer st)) = curr_content st"
    by (simp_all add: flush_buffer_def)
  show "fst (flush_buffer st) \<noteq> None \<Longrightarrow> snd (flush_buffer st) = st"
    by (cases "chunk_buffer st = []"; cases "response_contents st = []")
       (simp_all add: flush_buffer_def)
  show "concat (response_contents (snd (flush_buffer st)))
       = concat (response_contents st) @ chunk_buffer st" if "fst (flush_buffer st) = None"
  proof (cases "chunk_buffer st = []")
    case True
    then show ?thesis by (simp add: flush_buffer_def)
  next
    case False
    then have ne: "response_contents st \<noteq> []"
      using that by (auto simp: flush_buffer_def split: if_splits)
    have "concat (butlast (response_contents st) @ [last (response_contents st) @ chunk_buffer st])
        = concat (butlast (response_contents st) @ [last (response_contents st)]) @ chunk_buffer st"
      by simp
    then show ?thesis
      using False ne by (simp add: flush_buffer_def)
  qed
qed

lemma final_rich_content:
  "response_contents (snd (final_rich ctx i cs st)) = response_contents st
   \<and> chunk_buffer (snd (final_rich ctx i cs st)) = chunk_buffer st
   \<and> curr_content (snd (final_rich ctx i cs st)) = curr_content st"
proof (induction cs arbitrary: i st)
  case Nil
  then show ?case by simp
next
  case (Cons c cs)
  let ?st1 = "st\<lparr>embed := (embed st)\<lparr>description := Some c, color := Some dark_green\<rparr>\<rparr>"
  let ?r = "if i < length (response_msgs ?st1) then edit_nth FinalUpdate i (EmbedPayload (embed ?st1)) ?st1
            else reply_helper ctx FinalUpdate (EmbedPayload (embed ?st1)) True ?st1"
  have r: "response_contents (snd ?r) = response_contents st
     \<and> chunk_buffer (snd ?r) = chunk_buffer st \<and> curr_content (snd ?r) = curr_content st"
    by (simp add: edit_nth_fields reply_helper_fields)
  show ?case
  proof (cases "fst ?r")
    case None
    then have "final_rich ctx i (c # cs) st = final_rich ctx (Suc i) cs (snd ?r)"
      by (simp add: Let_def case_prod_beta)
    then show ?thesis using Cons.IH [of "Suc i" "snd ?r"] r by simp
  next
    case (Some e)
    then have "final_rich ctx i (c # cs) st = (Some e, snd ?r)"
      by (simp add: Let_def case_prod_beta)
    then show ?thesis using r by simp
  qed
qed

lemma final_plain_content:
  "response_contents (snd (final_plain ctx cs st)) = response_contents st
   \<and> chunk_buffer (snd (final_plain ctx cs st)) = chunk_buffer st
   \<and> curr_content (snd (final_plain ctx cs st)) = curr_content st"
proof (induction cs arbitrary: st)
  case Nil
  then show ?case by simp
next
  case (Cons c cs)
  let ?r = "if response_msgs st = [] \<or> rm_content (last (response_msgs st)) \<noteq> []
            then reply_helper ctx FinalUpdate (ContentPayload c) False st
            else edit_last FinalUpdate (ContentPayload c) st"
  have r: "response_contents (snd ?r) = response_contents st
     \<and> chunk_buffer (snd ?r) = chunk_buffer st \<and> curr_content (snd ?r) = curr_content st"
    by (simp add: edit_last_fields reply_helper_fields)
  show ?case
  proof (cases "fst ?r")
    case None
    then have "final_plain ctx (c # cs) st = final_plain ctx cs (snd ?r)"
      by (simp add: case_prod_beta)
    then show ?thesis using Cons.IH [of "snd ?r"] r by simp
  next
    case (Some e)
    then have "final_plain ctx (c # cs) st = (Some e, snd ?r)"
      by (simp add: case_prod_beta)
    then show ?thesis using r by simp
  qed
qed

lemma final_update_content:
  "chunk_buffer (snd (final_update ctx st)) = chunk_buffer st"
  "curr_content (snd (final_update ctx st)) = curr_content st"
  "fst (final_update ctx st) = None \<Longrightarrow>
     concat (response_contents (snd (final_update ctx st)))
       = concat (response_contents st) @ chunk_buffer st"
  "concat (response_contents (snd (final_update ctx st))) = concat (response_contents st)
     \<or> concat (response_contents (snd (final_update ctx st)))
          = concat (response_contents st) @ chunk_buffer st"
proof -
  let ?f = "flush_buffer st"
  show "chunk_buffer (snd (final_update ctx st)) = chunk_buffer st"
    "curr_content (snd (final_update ctx st)) = curr_content st"
    by (simp_all add: final_update_def case_prod_beta option.case_eq_if flush_buffer_content(1,2)
        final_rich_content final_plain_content)
  have cases: "concat (response_contents (snd (final_update ctx st)))
       = concat (response_contents (snd ?f))"
    by (simp add: final_update_def case_prod_beta option.case_eq_if
        final_rich_content final_plain_content)
  have ok: "fst ?f = None" if "fst (final_update ctx st) = None"
    using that by (cases "fst ?f") (simp_all add: final_update_def case_prod_beta)
  show "concat (response_contents (snd (final_update ctx st)))
       = concat (response_contents st) @ chunk_buffer st" if "fst (final_update ctx st) = None"
    using flush_buffer_content(3) [OF ok [OF that]] cases by simp
  show "concat (response_contents (snd (final_update ctx st))) = concat (response_contents st)
     \<or> concat (response_contents (snd (final_update ctx st)))
          = concat (response_contents st) @ chunk_buffer st"
  proof (cases "fst ?f")
    case None
    then show ?thesis using flush_buffer_content(3) [of st] cases by simp
  next
    case (Some e)
    then have "snd ?f = st" using flush_buffer_content(4) [of st] by simp
    then show ?thesis using cases by simp
  qed
qed

lemma error_handler_content:
  "chunk_buffer (snd (error_handler ctx st)) = chunk_buffer st"
  "curr_content (snd (error_handler ctx st)) = curr_content st"
  by (simp_all add: error_handler_def Let_def edit_last_fields reply_helper_fields)

lemma store_final_content:
  "chunk_buffer (snd (store_final oc st)) = chunk_buffer st"
  "curr_content (snd (store_final oc st)) = curr_content st"
  "response_contents (snd (store_final oc st)) = response_contents st"
  by (simp_all add: store_final_def case_prod_beta option.case_eq_if)

lemma try_block_content:
  fixes ctx items embed0 cache pf
  defines "st1 \<equiv> snd (try_block ctx items (driver_init embed0 cache pf))"
  shows "curr_content st1 = received items"
    and "fst (try_block ctx items (driver_init embed0 cache pf)) = None \<Longrightarrow>
           concat (response_contents st1) = received items"
    and "StreamFails \<in> set items \<Longrightarrow> concat (response_contents st1) @ chunk_buffer st1 = received items"
    and "\<exists>rest. received items = concat (response_contents st1) @ rest"
proof -
  let ?st0 = "driver_init embed0 cache pf"
  let ?s = "snd (stream_loop ctx items ?st0)"
  have s1: "concat (response_contents ?s) @ chunk_buffer ?s = received items"
    using stream_loop_content(1) [of ctx items ?st0] by (simp add: driver_init_def)
  have s2: "curr_content ?s = received items"
    using stream_loop_content(2) [of ctx items ?st0] by (simp add: driver_init_def)
  show "curr_content st1 = received items"
    using s2 by (simp add: st1_def try_block_def case_prod_beta option.case_eq_if
        final_update_content(2))
  show "concat (response_contents st1) = received items"
    if "fst (try_block ctx items ?st0) = None"
  proof -
    have a: "fst (stream_loop ctx items ?st0) = None"
      using that by (cases "fst (stream_loop ctx items ?st0)") (simp_all add: try_block_def case_prod_beta)
    then have b: "try_block ctx items ?st0 = final_update ctx ?s"
      by (simp add: try_block_def case_prod_beta)
    then have "fst (final_update ctx ?s) = None" using that by simp
    from final_update_content(3) [OF this] show ?thesis
      using s1 b by (simp add: st1_def)
  qed
  show "concat (response_contents st1) @ chunk_buffer st1 = received items"
    if "StreamFails \<in> set items"
  proof -
    have "fst (stream_loop ctx items ?st0) = Some GenerationError"
      using that by (simp add: stream_loop_fst)
    then have "st1 = ?s"
      by (simp add: st1_def try_block_def case_prod_beta)
    then show ?thesis using s1 by simp
  qed
  show "\<exists>rest. received items = concat (response_contents st1) @ rest"
  proof (cases "fst (stream_loop ctx items ?st0)")
    case (Some e)
    then have "st1 = ?s"
      by (simp add: st1_def try_block_def case_prod_beta)
    then show ?thesis using s1 by metis
  next
    case None
    then have b: "st1 = snd (final_update ctx ?s)"
      by (simp add: st1_def try_block_def case_prod_beta)
    from final_update_content(4) [of ctx ?s] show ?thesis
    proof
      assume "concat (response_contents (snd (final_update ctx ?s))) = concat (response_contents ?s)"
      then have "received items = concat (response_contents st1) @ chunk_buffer ?s"
        using s1 by (simp add: b)
      then show ?thesis ..
    next
      assume "concat (response_contents (snd (final_update ctx ?s)))
          = concat (response_contents ?s) @ chunk_buffer ?s"
      then have "received items = concat (response_contents st1) @ []"
        using s1 by (simp add: b)
      then show ?thesis ..
    qed
  qed
qed

section \<open>Theorems: the response driver\<close>

text \<open>
  C6, amended. When the text of a chunk, added to the buffer and to the last content, exceeds
  the capacity (\<open>4096 - 2 = 4094\<close> characters in rich mode, 2000 in plain-text mode):
  \<^item> in rich mode, the calls succeeding, the driver edits the active message to show its
    committed content alone, in the colour of a complete message, and sends a new message, a
    reply to the previous one, that shows the whole buffer with the in-progress marker; the
    buffer becomes the new last content and the edit timer is set;
  \<^item> in plain-text mode the buffer becomes the new last content and nothing is sent before
    the final update.
  For the deltas \<open>"Hello "\<close>, \<open>"world, "\<close>, 3800 more characters, \<open>"overflow!"\<close> (3822
  characters in all) no capacity from 3822 on is exceeded, in particular neither 4093 nor
  4094: the response is complete with exactly one outgoing message, whose final content is
  the whole text.
\<close>

theorem overflow_split:
  "(\<not> use_plain_responses ctx \<and> response_contents st \<noteq> [] \<and> response_msgs st \<noteq> []
      \<and> length (last (response_contents st) @ chunk_buffer st @ tx) > max_message_length ctx
      \<and> outcomes (platform st) (length (calls (platform st))) = None
      \<and> outcomes (platform st) (Suc (length (calls (platform st)))) = None
      \<and> rm_id (last (response_msgs st)) < next_id (platform st)
    \<longrightarrow> response_contents (process_chunk ctx (TextChunk tx) t st)
          = response_contents st @ [chunk_buffer st @ tx]
        \<and> chunk_buffer (process_chunk ctx (TextChunk tx) t st) = []
        \<and> shown (platform (process_chunk ctx (TextChunk tx) t st)) (rm_id (last (response_msgs st)))
            = Some (EmbedPayload ((embed st)\<lparr>description := Some (last (response_contents st)),
                                             color := Some dark_green\<rparr>))
        \<and> response_msgs (process_chunk ctx (TextChunk tx) t st)
            = response_msgs st @ [\<lparr>rm_id = next_id (platform st), rm_content = []\<rparr>]
        \<and> shown (platform (process_chunk ctx (TextChunk tx) t st)) (next_id (platform st))
            = Some (EmbedPayload (Embed\<lparr>description := Some (chunk_buffer st @ tx @ STREAMING_INDICATOR),
                                         color := Some orange\<rparr>))
        \<and> reply_to (platform (process_chunk ctx (TextChunk tx) t st)) (next_id (platform st))
            = Some (rm_id (last (response_msgs st)))
        \<and> last_edit_time (process_chunk ctx (TextChunk tx) t st) = t)
   \<and> (use_plain_responses ctx \<and> response_contents st \<noteq> []
        \<and> length (last (response_contents st) @ chunk_buffer st @ tx) > max_message_length ctx
      \<longrightarrow> response_contents (process_chunk ctx (TextChunk tx) t st)
            = response_contents st @ [chunk_buffer st @ tx]
          \<and> chunk_buffer (process_chunk ctx (TextChunk tx) t st) = []
          \<and> response_msgs (process_chunk ctx (TextChunk tx) t st) = response_msgs st
          \<and> platform (process_chunk ctx (TextChunk tx) t st) = platform st)
   \<and> max_message_length_of False = 4094 \<and> max_message_length_of True = 2000
   \<and> (length filler = 3800 \<and> 3822 \<le> cap
      \<longrightarrow> fst (respond (ex_ctx\<lparr>max_message_length := cap\<rparr>) (section8_stream filler) ex_driver_init)
            = Completed
          \<and> response_msgs (snd (respond (ex_ctx\<lparr>max_message_length := cap\<rparr>)
               (section8_stream filler) ex_driver_init)) = [\<lparr>rm_id = 1000, rm_content = []\<rparr>]
          \<and> shown (platform (snd (respond (ex_ctx\<lparr>max_message_length := cap\<rparr>)
               (section8_stream filler) ex_driver_init))) 1000
              = Some (EmbedPayload (Embed\<lparr>description := Some (''Hello world, '' @ filler @ ''overflow!''),
                                           color := Some dark_green\<rparr>)))"
proof (intro conjI impI)
  show "max_message_length_of False = 4094" "max_message_length_of True = 2000"
    by (simp_all add: max_message_length_of_def STREAMING_INDICATOR_def)
qed (simp_all add: overflow_rich overflow_plain section8_one_message)

theorem overflow_split_witness:
  "response_contents (process_chunk ex_ctx (TextChunk ''overflow!'') 103 ex_state_active)
     = [''Hello '', replicate 4090 (CHR ''x'') @ ''overflow!'']
   \<and> response_msgs (process_chunk ex_ctx (TextChunk ''overflow!'') 103 ex_state_active)
     = [\<lparr>rm_id = 1000, rm_content = []\<rparr>, \<lparr>rm_id = 1001, rm_content = []\<rparr>]
   \<and> shown (platform (process_chunk ex_ctx (TextChunk ''overflow!'') 103 ex_state_active)) 1000
     = Some (EmbedPayload (Embed\<lparr>description := Some ''Hello '', color := Some dark_green\<rparr>))
   \<and> response_contents (process_chunk ex_ctx_plain (TextChunk ''overflow!'') 103 ex_state_plain)
     = [replicate 1995 (CHR ''x''), ''overflow!'']
   \<and> calls (platform (process_chunk ex_ctx_plain (TextChunk ''overflow!'') 103 ex_state_plain)) = []
   \<and> response_msgs (snd (respond (ex_ctx\<lparr>max_message_length := 4093\<rparr>)
         (section8_stream (replicate 3800 (CHR ''x''))) ex_driver_init))
     = [\<lparr>rm_id = 1000, rm_content = []\<rparr>]"
  using
    overflow_split [of ex_ctx ex_state_active "''overflow!''" 103 "replicate 3800 (CHR ''x'')" 4093]
    overflow_split [of ex_ctx_plain ex_state_plain "''overflow!''" 103 "replicate 3800 (CHR ''x'')" 4093]
  by (simp add: ex_ctx_def ex_ctx_plain_def ex_state_active_def ex_state_plain_def ex_platform_def
      fresh_platform_def max_message_length_of_def STREAMING_INDICATOR_def Embed_def)

text \<open>
  C6, as stated, fails: the deltas of section 8 against a capacity of 4093 characters give
  one outgoing message, not two.
\<close>

theorem section8_counterexample:
  "length (response_msgs (snd (respond (ex_ctx\<lparr>max_message_length := 4093\<rparr>)
      (section8_stream (replicate 3800 (CHR ''x''))) ex_driver_init))) = 1
   \<and> response_contents (snd (respond (ex_ctx\<lparr>max_message_length := 4093\<rparr>)
      (section8_stream (replicate 3800 (CHR ''x''))) ex_driver_init))
     = [''Hello world, '' @ replicate 3800 (CHR ''x'') @ ''overflow!'']"
  by (simp add: section8_one_message)

text \<open>
  C7, amended. The driver spaces its in-progress edits by its own clock readings: the clock
  is read once per chunk (line 663), and the periodic edit of line 704 is issued only when
  that reading is at least \<open>EDIT_DELAY_SECONDS = 2\<close> above \<open>last_edit_time\<close>, the reading of
  the chunk of the last successful send or successful in-progress edit. So, with readings
  that do not decrease and a log that starts empty, the reading of every in-progress edit of
  the stream loop is at least 2 seconds above the reading of every earlier successful send
  and every earlier successful in-progress edit.

  This bounds the readings, not the times of the calls: a call is issued after its reading,
  and the reply of line 682 after the awaited edit of line 672, while line 683 stores the
  reading taken before that edit. Exempt are the edits of the final update and the edit that
  completes the active message when the capacity is exceeded (line 672), which is issued
  whatever the reading of the edit timer.
\<close>

theorem in_progress_readings_spaced:
  assumes "sorted (item_times items)" and "calls pf = []"
  shows "readings_spaced (calls (platform (snd (stream_loop ctx items (driver_init embed0 cache pf)))))"
proof -
  define T where "T = (if item_times items = [] then 0 else hd (item_times items))"
  have low: "\<forall>t \<in> set (item_times items). T \<le> t"
    using assms(1) by (cases "item_times items") (auto simp: T_def)
  have "timing_inv T (driver_init embed0 cache pf)"
    using assms(2) by (simp add: timing_inv_def driver_init_def)
  then obtain T' where "timing_inv T' (snd (stream_loop ctx items (driver_init embed0 cache pf)))"
    using stream_loop_timing [OF _ assms(1) low] by blast
  then show ?thesis
    by (simp add: timing_inv_def)
qed

theorem in_progress_readings_spaced_witness:
  "readings_spaced (calls (platform (snd (stream_loop ex_ctx ex_stream_hello ex_driver_init))))
   \<and> resets_timer (calls (platform (snd (stream_loop ex_ctx ex_stream_hello ex_driver_init))) ! 0)
   \<and> in_progress_edit (calls (platform (snd (stream_loop ex_ctx ex_stream_hello ex_driver_init))) ! 1)"
proof -
  have s: "sorted (item_times ex_stream_hello)"
    by (simp add: ex_stream_hello_def)
  have c: "calls ex_platform = []"
    by (simp add: ex_platform_def fresh_platform_def)
  have a: "resets_timer (calls (platform (snd (stream_loop ex_ctx ex_stream_hello ex_driver_init))) ! 0)"
    by (simp add: driver_defs driver_ex_defs driver_stream_defs log_defs Let_def)
  have b: "in_progress_edit (calls (platform (snd (stream_loop ex_ctx ex_stream_hello ex_driver_init))) ! 1)"
    by (simp add: driver_defs driver_ex_defs driver_stream_defs log_defs Let_def)
  show ?thesis
    using in_progress_readings_spaced [OF s c, of ex_ctx Embed Map.empty] a b
    by (simp add: ex_driver_init_def)
qed

text \<open>
  C7, as stated, fails: a periodic edit, issued for the chunk read at second 103, is followed
  inside the stream loop by the edit that completes the message on overflow, issued for the
  next chunk, read half a second later.
\<close>

theorem overflow_edit_counterexample:
  "length (calls (platform (snd (stream_loop ex_ctx ex_stream_overflow ex_driver_init)))) = 4
   \<and> is_edit (calls (platform (snd (stream_loop ex_ctx ex_stream_overflow ex_driver_init))) ! 1)
   \<and> le_ok (calls (platform (snd (stream_loop ex_ctx ex_stream_overflow ex_driver_init))) ! 1)
   \<and> le_phase (calls (platform (snd (stream_loop ex_ctx ex_stream_overflow ex_driver_init))) ! 1)
       = Streaming 103
   \<and> is_edit (calls (platform (snd (stream_loop ex_ctx ex_stream_overflow ex_driver_init))) ! 2)
   \<and> le_ok (calls (platform (snd (stream_loop ex_ctx ex_stream_overflow ex_driver_init))) ! 2)
   \<and> le_phase (calls (platform (snd (stream_loop ex_ctx ex_stream_overflow ex_driver_init))) ! 2)
       = Streaming (207 / 2)"
  by (simp add: driver_defs driver_ex_defs driver_stream_defs log_defs Let_def)

text \<open>
  In the same run the reply that starts the next message is issued after that edit has
  returned, with the reading taken before it, and that reading becomes \<open>last_edit_time\<close>.
\<close>

lemma overflow_reply_reading:
  "is_reply (calls (platform (snd (stream_loop ex_ctx ex_stream_overflow ex_driver_init))) ! 3)
   \<and> le_phase (calls (platform (snd (stream_loop ex_ctx ex_stream_overflow ex_driver_init))) ! 3)
       = Streaming (207 / 2)
   \<and> last_edit_time (snd (stream_loop ex_ctx ex_stream_overflow ex_driver_init)) = 207 / 2"
  by (simp add: driver_defs driver_ex_defs driver_stream_defs log_defs Let_def)

text \<open>
  C8, amended.
  \<^item> Nothing raised while a chunk is processed (a failed send or edit, a chunk whose text
    cannot be read) ends the stream loop: the loop ends with an exception exactly when the
    generation call or the iterator raises, and then the chunks after that point are not
    processed.
  \<^item> When the \<open>try\<close> block ends with an exception (that one, or a failure in the final
    update), the handler issues exactly one more call: an edit of the last response message,
    or a reply to the trigger message when there is no response message, carrying the fixed
    error text. If the call succeeds, that message shows the error text and every other
    message shows what it showed before; if it fails, the exception leaves the handler. The
    contents collected so far are kept.
\<close>

theorem error_handling:
  "fst (stream_loop ctx items st) = (if StreamFails \<in> set items then Some GenerationError else None)
   \<and> snd (stream_loop ctx items st)
       = snd (stream_loop ctx (takeWhile (\<lambda>x. x \<noteq> StreamFails) items) st)
   \<and> (try_block ctx items' (driver_init embed0 cache pf) = (Some e, st1) \<longrightarrow>
        (fst (respond ctx items' (driver_init embed0 cache pf)) = Failed
          \<or> (\<exists>e'. fst (respond ctx items' (driver_init embed0 cache pf)) = Crashed e'))
        \<and> calls (platform (snd (respond ctx items' (driver_init embed0 cache pf))))
            = calls (platform st1)
              @ [\<lparr>le_call = error_call ctx st1, le_phase = ErrorHandler,
                   le_ok = (fst (respond ctx items' (driver_init embed0 cache pf)) = Failed)\<rparr>]
        \<and> response_contents (snd (respond ctx items' (driver_init embed0 cache pf)))
            = response_contents st1
        \<and> shown (platform (snd (respond ctx items' (driver_init embed0 cache pf))))
            = (if fst (respond ctx items' (driver_init embed0 cache pf)) = Failed
               then (shown (platform st1))(error_target st1 \<mapsto> error_payload ctx st1)
               else shown (platform st1)))"
proof (intro conjI impI)
  show "fst (stream_loop ctx items st) = (if StreamFails \<in> set items then Some GenerationError else None)"
    by (rule stream_loop_fst)
  show "snd (stream_loop ctx items st)
       = snd (stream_loop ctx (takeWhile (\<lambda>x. x \<noteq> StreamFails) items) st)"
    by (rule stream_loop_prefix)
next
  let ?st0 = "driver_init embed0 cache pf"
  assume tb: "try_block ctx items' ?st0 = (Some e, st1)"
  have r0: "registered ctx (next_id pf) ?st0"
    by (rule registered_driver_init)
  have r1: "registered ctx (next_id pf) st1"
    using registered_try_block [OF r0, of items'] tb by simp
  let ?ok = "outcomes (platform st1) (length (calls (platform st1))) = None"
  have res: "fst (respond ctx items' ?st0) = (if ?ok then Failed else Crashed (the (fst (error_handler ctx st1))))
             \<and> platform (snd (respond ctx items' ?st0)) = platform (snd (error_handler ctx st1))
             \<and> response_contents (snd (respond ctx items' ?st0)) = response_contents st1"
  proof (cases ctx items' ?st0 rule: respond_cases)
    case (completed st1')
    then show ?thesis using tb by simp
  next
    case (failed e2 st1' st2)
    then have eq: "st1' = st1" using tb by simp
    have r2: "registered ctx (next_id pf) st2"
      using registered_error_handler [OF r1] failed(2) eq by simp
    have ok: ?ok
      using error_handler_fields(1) [of ctx st1] failed(2) eq by simp
    show ?thesis
      using store_final_registered(1,3,4) [OF r2, of Failed] failed(2,3) eq ok
        error_handler_fields(2) [of ctx st1]
      by simp
  next
    case (crashed e2 st1' e' st2)
    then have eq: "st1' = st1" using tb by simp
    have "fst (error_handler ctx st1) = Some e'"
      using crashed(2) eq by simp
    then have nok: "\<not> ?ok"
      by (simp add: error_handler_fields(1))
    show ?thesis
      using crashed(2,3) eq nok error_handler_fields(2) [of ctx st1] by simp
  qed
  have failed_iff: "(fst (respond ctx items' ?st0) = Failed) = ?ok"
    using res by simp
  show "fst (respond ctx items' ?st0) = Failed \<or> (\<exists>e'. fst (respond ctx items' ?st0) = Crashed e')"
    using res by simp
  show "calls (platform (snd (respond ctx items' ?st0)))
            = calls (platform st1)
              @ [\<lparr>le_call = error_call ctx st1, le_phase = ErrorHandler,
                   le_ok = (fst (respond ctx items' ?st0) = Failed)\<rparr>]"
    unfolding failed_iff using res by (simp add: error_handler_fields)
  show "response_contents (snd (respond ctx items' ?st0)) = response_contents st1"
    using res by simp
  show "shown (platform (snd (respond ctx items' ?st0)))
            = (if fst (respond ctx items' ?st0) = Failed
               then (shown (platform st1))(error_target st1 \<mapsto> error_payload ctx st1)
               else shown (platform st1))"
    unfolding failed_iff using res by (simp add: error_handler_fields)
qed

theorem error_handling_witness:
  "fst (respond ex_ctx [Chunk (TextChunk ''partial'') 100, StreamFails, Chunk (TextChunk ''late'') 101]
          ex_driver_init) = Failed
   \<and> shown (platform (snd (respond ex_ctx
          [Chunk (TextChunk ''partial'') 100, StreamFails, Chunk (TextChunk ''late'') 101]
          ex_driver_init))) 1000
       = Some (EmbedPayload (Embed\<lparr>description := Some error_msg, color := Some red\<rparr>))
   \<and> response_contents (snd (respond ex_ctx
          [Chunk (TextChunk ''partial'') 100, StreamFails, Chunk (TextChunk ''late'') 101]
          ex_driver_init)) = [''partial'']"
proof -
  let ?items = "[Chunk (TextChunk ''partial'') 100, StreamFails, Chunk (TextChunk ''late'') 101]"
  have "fst (try_block ex_ctx ?items (driver_init Embed Map.empty ex_platform)) = Some GenerationError"
    by (simp add: try_block_def stream_loop_fst case_prod_beta)
  then obtain st1 where
    tb: "try_block ex_ctx ?items (driver_init Embed Map.empty ex_platform) = (Some GenerationError, st1)"
    by (cases "try_block ex_ctx ?items (driver_init Embed Map.empty ex_platform)") simp
  have st1: "st1 = snd (try_block ex_ctx ?items (driver_init Embed Map.empty ex_platform))"
    by (simp add: tb)
  have ok: "fst (respond ex_ctx ?items (driver_init Embed Map.empty ex_platform)) = Failed"
    by (simp add: driver_defs driver_ex_defs Let_def MsgNode_def)
  have tgt: "error_target st1 = 1000"
    unfolding st1 by (simp add: error_target_def driver_defs driver_ex_defs Let_def)
  have pl: "error_payload ex_ctx st1
              = EmbedPayload (Embed\<lparr>description := Some error_msg, color := Some red\<rparr>)"
    unfolding st1 by (simp add: error_payload_def driver_defs driver_ex_defs Let_def)
  have cs: "response_contents st1 = [''partial'']"
    unfolding st1 by (simp add: driver_defs driver_ex_defs Let_def)
  have "fst (respond ex_ctx ?items (driver_init Embed Map.empty ex_platform)) = Failed
   \<and> shown (platform (snd (respond ex_ctx ?items (driver_init Embed Map.empty ex_platform)))) 1000
       = Some (EmbedPayload (Embed\<lparr>description := Some error_msg, color := Some red\<rparr>))
   \<and> response_contents (snd (respond ex_ctx ?items (driver_init Embed Map.empty ex_platform)))
       = [''partial'']"
    using error_handling [of ex_ctx "[]" st1 ?items Embed Map.empty ex_platform GenerationError st1]
      ok tgt pl cs
    by (simp only: tb) simp
  then show ?thesis
    by (simp only: ex_driver_init_def)
qed

text \<open>
  C8, as stated, fails: the second call, an edit issued inside the stream loop, fails; the
  stream goes on, the response completes, and the message shows the full text, not the
  error text.
\<close>

theorem failed_edit_counterexample:
  "is_edit (calls (platform (snd (respond ex_ctx ex_stream_abc ex_driver_init_edit_fails))) ! 1)
   \<and> \<not> le_ok (calls (platform (snd (respond ex_ctx ex_stream_abc ex_driver_init_edit_fails))) ! 1)
   \<and> le_phase (calls (platform (snd (respond ex_ctx ex_stream_abc ex_driver_init_edit_fails))) ! 1)
       = Streaming 103
   \<and> length (calls (platform (snd (respond ex_ctx ex_stream_abc ex_driver_init_edit_fails)))) = 4
   \<and> fst (respond ex_ctx ex_stream_abc ex_driver_init_edit_fails) = Completed
   \<and> shown (platform (snd (respond ex_ctx ex_stream_abc ex_driver_init_edit_fails))) 1000
       = Some (EmbedPayload (Embed\<lparr>description := Some ''abc'', color := Some dark_green\<rparr>))"
  by (simp add: driver_defs driver_ex_defs driver_stream_defs log_defs Let_def MsgNode_def)

text \<open>
  C10, amended. When the handler has finished (after the final update, or after the error
  handler has shown the error text), the response messages are exactly the messages created
  on the platform during the response, and the node of each is registered with role
  \<open>model\<close>, the trigger message as parent, its lock released, and as text the
  concatenation of all contents collected for this response (\<open>response_contents\<close>): the same
  text for every message, not the message's own part, and not the error text that the last
  message shows after a failure.

  That text and the response text received (\<open>received items\<close>, which is what \<open>curr_content\<close>
  holds): after the final update the node text is the whole text received. After the error
  handler it is a beginning of the text received; when the stream failed, what is missing is
  the text that \<open>chunk_buffer\<close> still holds, lines 713-714 not being reached.
\<close>

theorem response_nodes_registered:
  assumes "fst (respond ctx items (driver_init embed0 cache pf)) = Completed
           \<or> fst (respond ctx items (driver_init embed0 cache pf)) = Failed"
  shows "map rm_id (response_msgs (snd (respond ctx items (driver_init embed0 cache pf))))
           = [next_id pf .. next_id (platform (snd (respond ctx items (driver_init embed0 cache pf)))) - 1]
         \<and> (\<forall>rm \<in> set (response_msgs (snd (respond ctx items (driver_init embed0 cache pf)))).
               nodes (snd (respond ctx items (driver_init embed0 cache pf))) (rm_id rm)
                 = Some (MsgNode
                     \<lparr>node_text := Some (concat (response_contents
                                        (snd (respond ctx items (driver_init embed0 cache pf))))),
                      parent_msg := Some (new_msg ctx)\<rparr>))
         \<and> curr_content (snd (respond ctx items (driver_init embed0 cache pf))) = received items
         \<and> (fst (respond ctx items (driver_init embed0 cache pf)) = Completed
              \<longrightarrow> concat (response_contents (snd (respond ctx items (driver_init embed0 cache pf))))
                    = received items)
         \<and> (\<exists>rest. received items
                = concat (response_contents (snd (respond ctx items (driver_init embed0 cache pf))))
                  @ rest)
         \<and> (StreamFails \<in> set items
              \<longrightarrow> received items
                    = concat (response_contents (snd (respond ctx items (driver_init embed0 cache pf))))
                      @ chunk_buffer (snd (respond ctx items (driver_init embed0 cache pf))))"
proof -
  let ?st0 = "driver_init embed0 cache pf"
  let ?r = "respond ctx items ?st0"
  have r0: "registered ctx (next_id pf) ?st0"
    by (rule registered_driver_init)
  have reg: "map rm_id (response_msgs (snd ?r)) = [next_id pf .. next_id (platform (snd ?r)) - 1]
      \<and> (\<forall>rm \<in> set (response_msgs (snd ?r)).
            nodes (snd ?r) (rm_id rm)
              = Some (MsgNode\<lparr>node_text := Some (concat (response_contents (snd ?r))),
                              parent_msg := Some (new_msg ctx)\<rparr>))"
  proof (cases ctx items ?st0 rule: respond_cases)
    case (completed st1)
    have r1: "registered ctx (next_id pf) st1"
      using registered_try_block [OF r0, of items] completed(1) by simp
    show ?thesis
      using store_final_registered [OF r1, of Completed] r1
      by (simp add: completed(2) registered_def)
  next
    case (failed e st1 st2)
    have r1: "registered ctx (next_id pf) st1"
      using registered_try_block [OF r0, of items] failed(1) by simp
    have r2: "registered ctx (next_id pf) st2"
      using registered_error_handler [OF r1] failed(2) by simp
    show ?thesis
      using store_final_registered [OF r2, of Failed] r2
      by (simp add: failed(3) registered_def)
  next
    case (crashed e st1 e' st2)
    then show ?thesis using assms by simp
  qed
  let ?t = "try_block ctx items ?st0"
  have same: "response_contents (snd ?r) = response_contents (snd ?t)
      \<and> chunk_buffer (snd ?r) = chunk_buffer (snd ?t)
      \<and> curr_content (snd ?r) = curr_content (snd ?t)
      \<and> (fst ?r = Completed \<longrightarrow> fst ?t = None)"
  proof (cases ctx items ?st0 rule: respond_cases)
    case (completed st1)
    then show ?thesis by (simp add: store_final_content)
  next
    case (failed e st1 st2)
    have "st2 = snd (error_handler ctx st1)" using failed(2) by simp
    then show ?thesis
      using failed(1) assms
      by (simp add: failed(3) store_final_content error_handler_content error_handler_fields(2)
          store_final_def case_prod_beta option.case_eq_if)
  next
    case (crashed e st1 e' st2)
    then show ?thesis using assms by simp
  qed
  have c: "curr_content (snd ?r) = received items"
    using same try_block_content(1) [where ctx = ctx and items = items and ?embed0.0 = embed0 and cache = cache and pf = pf] by simp
  have d: "fst ?r = Completed \<longrightarrow> concat (response_contents (snd ?r)) = received items"
    using same try_block_content(2) [where ctx = ctx and items = items and ?embed0.0 = embed0 and cache = cache and pf = pf] by simp
  have e: "\<exists>rest. received items = concat (response_contents (snd ?r)) @ rest"
    using same try_block_content(4) [where ctx = ctx and items = items and ?embed0.0 = embed0 and cache = cache and pf = pf] by simp
  have f: "StreamFails \<in> set items
      \<longrightarrow> received items = concat (response_contents (snd ?r)) @ chunk_buffer (snd ?r)"
    using same try_block_content(3) [where ctx = ctx and items = items and ?embed0.0 = embed0 and cache = cache and pf = pf] by simp
  from reg c d e f show ?thesis by blast
qed

theorem response_nodes_registered_witness:
  "fst (respond ex_ctx ex_stream_hello ex_driver_init) = Completed
   \<and> response_msgs (snd (respond ex_ctx ex_stream_hello ex_driver_init))
       = [\<lparr>rm_id = 1000, rm_content = []\<rparr>]
   \<and> nodes (snd (respond ex_ctx ex_stream_hello ex_driver_init)) 1000
       = Some (MsgNode\<lparr>node_text := Some ''Hello world'', parent_msg := Some ex_said_hi\<rparr>)
   \<and> received ex_stream_hello = ''Hello world''
   \<and> fst (respond ex_ctx ex_stream_cut ex_driver_init) = Failed
   \<and> response_msgs (snd (respond ex_ctx ex_stream_cut ex_driver_init))
       = [\<lparr>rm_id = 1000, rm_content = []\<rparr>]
   \<and> nodes (snd (respond ex_ctx ex_stream_cut ex_driver_init)) 1000
       = Some (MsgNode\<lparr>node_text := Some ''Hello '', parent_msg := Some ex_said_hi\<rparr>)
   \<and> chunk_buffer (snd (respond ex_ctx ex_stream_cut ex_driver_init)) = ''world''
   \<and> received ex_stream_cut = ''Hello world''"
proof -
  have a: "fst (respond ex_ctx ex_stream_hello ex_driver_init) = Completed"
    by (simp add: driver_defs driver_ex_defs driver_stream_defs Let_def MsgNode_def)
  have b: "response_msgs (snd (respond ex_ctx ex_stream_hello ex_driver_init))
       = [\<lparr>rm_id = 1000, rm_content = []\<rparr>]"
    by (simp add: driver_defs driver_ex_defs driver_stream_defs Let_def MsgNode_def)
  have c: "received ex_stream_hello = ''Hello world''"
    by (simp add: ex_stream_hello_def)
  have d: "new_msg ex_ctx = ex_said_hi"
    by (simp add: ex_ctx_def)
  have a': "fst (respond ex_ctx ex_stream_cut ex_driver_init) = Failed"
    by (simp add: driver_defs driver_ex_defs driver_stream_defs ex_stream_cut_def Let_def MsgNode_def)
  have b': "response_msgs (snd (respond ex_ctx ex_stream_cut ex_driver_init))
       = [\<lparr>rm_id = 1000, rm_content = []\<rparr>]"
    by (simp add: driver_defs driver_ex_defs driver_stream_defs ex_stream_cut_def Let_def MsgNode_def)
  have c': "received ex_stream_cut = ''Hello world''" "StreamFails \<in> set ex_stream_cut"
    by (simp_all add: ex_stream_cut_def)
  have e': "chunk_buffer (snd (respond ex_ctx ex_stream_cut ex_driver_init)) = ''world''"
    by (simp add: driver_defs driver_ex_defs driver_stream_defs ex_stream_cut_def Let_def MsgNode_def)
  have t1: "nodes (snd (respond ex_ctx ex_stream_hello ex_driver_init)) 1000
       = Some (MsgNode\<lparr>node_text := Some ''Hello world'', parent_msg := Some ex_said_hi\<rparr>)"
    using response_nodes_registered [of ex_ctx ex_stream_hello Embed Map.empty ex_platform] a b c d
    by (simp add: ex_driver_init_def)
  have t2: "nodes (snd (respond ex_ctx ex_stream_cut ex_driver_init)) 1000
       = Some (MsgNode\<lparr>node_text := Some ''Hello '', parent_msg := Some ex_said_hi\<rparr>)"
    using response_nodes_registered [of ex_ctx ex_stream_cut Embed Map.empty ex_platform] a' b' c' d e'
    by (simp add: ex_driver_init_def)
  from a b c a' b' c'(1) e' t1 t2 show ?thesis by simp
qed

text \<open>
  C10, as stated, fails: when the generation call raises, the only outgoing message shows
  the error text, and the text of its node is empty.
\<close>

theorem error_text_counterexample:
  "fst (respond ex_ctx [StreamFails] ex_driver_init) = Failed
   \<and> response_msgs (snd (respond ex_ctx [StreamFails] ex_driver_init))
       = [\<lparr>rm_id = 1000, rm_content = []\<rparr>]
   \<and> shown (platform (snd (respond ex_ctx [StreamFails] ex_driver_init))) 1000
       = Some (EmbedPayload (Embed\<lparr>description := Some error_msg, color := Some red\<rparr>))
   \<and> nodes (snd (respond ex_ctx [StreamFails] ex_driver_init)) 1000
       = Some (MsgNode\<lparr>node_text := Some [], parent_msg := Some ex_said_hi\<rparr>)"
  by (simp add: driver_defs driver_ex_defs driver_stream_defs Let_def MsgNode_def)


end
